theory Spec2Isabelle
  imports Main "HOL-Library.Char_ord" "HOL-Library.List_Lexorder"
begin

section \<open>Data model\<close>

text \<open>
  Go's \<^verbatim>\<open>int\<close> (64 bits, two's complement) is modelled as \<open>int\<close>, with the wrap-around
  written out where the code computes: the only arithmetic on an \<^verbatim>\<open>int\<close> is
  \<^verbatim>\<open>nextID = nextID + 1\<close>, and \<open>inc\<close> is that addition on the values of an \<^verbatim>\<open>int\<close>, from
  \<open>MinInt\<close> to \<open>MaxInt\<close>: it takes the largest \<^verbatim>\<open>int\<close> to the smallest. Comparisons of
  \<^verbatim>\<open>int\<close>s are those of their values.
\<close>

definition MaxInt :: int where
  "MaxInt = 2 ^ 63 - 1"

definition MinInt :: int where
  "MinInt = - (2 ^ 63)"

definition inc :: "int \<Rightarrow> int" where
  "inc x = (if x = MaxInt then MinInt else x + 1)"

text \<open>
  A \<^verbatim>\<open>time.Time\<close> is an instant, modelled as an integer; \<^verbatim>\<open>time.Now().UTC()\<close> is an argument
  \<open>now\<close> of the operation that reads the clock.
\<close>

type_synonym time = int

text \<open>
  What a Go call does: it returns a value, or it panics.
\<close>

datatype 'a outcome = Panics | Returns 'a

text \<open>
  An \<^verbatim>\<open>error\<close> value: \<open>New\<close> for \<^verbatim>\<open>errors.New(msg)\<close>, \<open>ValidationErrors\<close> for what
  ozzo-validation's \<^verbatim>\<open>ValidateStruct\<close> returns (the names of the fields that broke a rule),
  \<open>Wrap cause e\<close> for \<^verbatim>\<open>errors.Wrap(cause, e.Error())\<close>, the cause wrapped with the text of
  the error \<open>e\<close>. A nil error is \<open>None\<close> of \<open>error option\<close>.
\<close>

datatype error = New string | ValidationErrors "string list" | Wrap error error

text \<open>
  Modelled from the spec: the declaration of \<^verbatim>\<open>entities.Motorcycle\<close> is not among the sources.
  The fields are those of the spec's data model (ID, Make, Model, Year, VIN, CreatedUtc,
  ModifiedUtc), which are also the ones the repository and the interactor read and write.
  Both timestamps are \<^verbatim>\<open>time.Time\<close> values: the repository assigns \<^verbatim>\<open>time.Now().UTC()\<close> to
  each.
\<close>

record Motorcycle =
  ID :: int
  Make :: string
  Model :: string
  Year :: int
  Vin :: string
  CreatedUtc :: time
  ModifiedUtc :: time

text \<open>
  \<^verbatim>\<open>Motorcycle.Validate\<close> is not among the sources either: every operation that calls it takes
  it as the parameter \<open>validate\<close> (\<open>None\<close> for a nil error).
\<close>

type_synonym validator = "Motorcycle \<Rightarrow> error option"

text \<open>
  The state the repository's methods work on: the package-level variable \<^verbatim>\<open>nextID\<close> and the
  one field of the \<^verbatim>\<open>MotorcycleRepository\<close> struct.
\<close>

record MotorcycleRepository =
  nextID :: int
  Motorcycles :: "Motorcycle list"

definition kPrimaryKeyID_DoesNotExist :: int where
  "kPrimaryKeyID_DoesNotExist = -1"

text \<open>
  \<^verbatim>\<open>NewMotorcycleRepository\<close> builds the struct with a nil slice and validates it with no rule,
  which cannot fail. It does not touch \<^verbatim>\<open>nextID\<close>, whose current value is the argument.
\<close>

definition NewMotorcycleRepository :: "int \<Rightarrow> MotorcycleRepository" where
  "NewMotorcycleRepository n = \<lparr>nextID = n, Motorcycles = []\<rparr>"

section \<open>The repository\<close>

text \<open>
  Go's standard \<^verbatim>\<open>sort.Search(n, f)\<close>:
  \<^verbatim>\<open>i, j := 0, n; for i < j { h := int(uint(i+j) >> 1); if !f(h) { i = h + 1 } else { j = h } }; return i\<close>
\<close>

function Search_loop :: "nat \<Rightarrow> nat \<Rightarrow> (nat \<Rightarrow> bool) \<Rightarrow> nat" where
  "Search_loop i j f =
     (if i < j
      then (let h = (i + j) div 2
            in if \<not> f h then Search_loop (h + 1) j f else Search_loop i h f)
      else i)"
  by pat_completeness auto
termination
  by (relation "measure (\<lambda>(i, j, f). j - i)") auto

declare Search_loop.simps [simp del]

definition Search :: "nat \<Rightarrow> (nat \<Rightarrow> bool) \<Rightarrow> nat" where
  "Search n f = Search_loop 0 n f"

text \<open>\<^verbatim>\<open>findByID\<close>: the index and a nil error, or -1 and an error.\<close>

definition findByID :: "MotorcycleRepository \<Rightarrow> int \<Rightarrow> int \<times> error option" where
  "findByID repo id' =
     (let i = Search (length (Motorcycles repo)) (\<lambda>i. ID (Motorcycles repo ! i) \<ge> id')
      in if i < length (Motorcycles repo) \<and> ID (Motorcycles repo ! i) = id'
         then (int i, None)
         else (-1, Some (New ''motorcycle was not found'')))"

definition FindByID :: "MotorcycleRepository \<Rightarrow> int \<Rightarrow> error + Motorcycle" where
  "FindByID repo id' =
     (case findByID repo id' of
        (i, Some err) \<Rightarrow> Inl err
      | (i, None) \<Rightarrow> Inr (Motorcycles repo ! nat i))"

definition Find :: "MotorcycleRepository \<Rightarrow> Motorcycle \<Rightarrow> error + Motorcycle" where
  "Find repo motorcycle =
     (let i = Search (length (Motorcycles repo))
                (\<lambda>i. Make (Motorcycles repo ! i) \<ge> Make motorcycle
                    \<and> Model (Motorcycles repo ! i) \<ge> Model motorcycle
                    \<and> Year (Motorcycles repo ! i) \<ge> Year motorcycle)
      in if i < length (Motorcycles repo) \<and> ID (Motorcycles repo ! i) = ID motorcycle
         then Inr (Motorcycles repo ! i)
         else Inl (New ''motorcycle was not found, so it cannot be updated''))"

definition getNextID :: "MotorcycleRepository \<Rightarrow> int \<times> MotorcycleRepository" where
  "getNextID repo = (inc (nextID repo), repo\<lparr>nextID := inc (nextID repo)\<rparr>)"

text \<open>
  \<^verbatim>\<open>Insert\<close>, \<^verbatim>\<open>Update\<close> and \<^verbatim>\<open>Delete\<close> take a pointer to a motorcycle. At the call the pointer
  is to an entity outside the collection, with the value given (\<open>Own\<close>: a new entity of the
  caller's, or the pointer a successful \<^verbatim>\<open>Insert\<close> returned, which is the caller's own), or
  it is to element \<open>j\<close> of the collection (\<open>Element\<close>: the argument \<^verbatim>\<open>&repo.Motorcycles[j]\<close>, which
  is what \<^verbatim>\<open>FindByID\<close> and \<^verbatim>\<open>Find\<close> return). A pointer obtained earlier that no longer points
  into the collection is an \<open>Own\<close> pointer at the call. Evaluating \<^verbatim>\<open>&repo.Motorcycles[j]\<close>
  panics when \<open>j\<close> is not an index of the collection, and the method is not entered.
\<close>

datatype pointer = Own Motorcycle | Element nat

fun validPointer :: "MotorcycleRepository \<Rightarrow> pointer \<Rightarrow> bool" where
  "validPointer repo (Own motorcycle) = True"
| "validPointer repo (Element j) = (j < length (Motorcycles repo))"

text \<open>
  Reading through a valid pointer (the methods read only after \<open>validPointer\<close>), and the
  collection after a write through it: a write through a pointer to element \<open>j\<close> changes
  the collection, a write to an entity outside it does not.
\<close>

fun load :: "MotorcycleRepository \<Rightarrow> pointer \<Rightarrow> Motorcycle" where
  "load repo (Own motorcycle) = motorcycle"
| "load repo (Element j) = Motorcycles repo ! j"

fun written :: "pointer \<Rightarrow> Motorcycle \<Rightarrow> Motorcycle list \<Rightarrow> Motorcycle list" where
  "written (Own motorcycle) value ms = ms"
| "written (Element j) value ms = ms[j := value]"

text \<open>
  \<^verbatim>\<open>Insert\<close> and \<^verbatim>\<open>Update\<close> write to the entity through the pointer before they validate it.
  They return the Go result (the error, or the entity the returned pointer points to),
  the entity behind the caller's pointer after the call, and the state after the call.
\<close>

definition Insert ::
  "validator \<Rightarrow> time \<Rightarrow> MotorcycleRepository \<Rightarrow> pointer
     \<Rightarrow> ((error + Motorcycle) \<times> Motorcycle \<times> MotorcycleRepository) outcome" where
  "Insert validate now repo motorcycle =
     (if \<not> validPointer repo motorcycle then Panics
      else if fst (findByID repo (ID (load repo motorcycle))) \<noteq> kPrimaryKeyID_DoesNotExist
      then Returns (Inl (New ''cannot insert this motorcycle because the ID already exists''),
                    load repo motorcycle, repo)
      else (let (newID, repo1) = getNextID repo;
                motorcycle1 = (load repo1 motorcycle)\<lparr>ID := newID, CreatedUtc := now\<rparr>;
                repo2 = repo1\<lparr>Motorcycles := written motorcycle motorcycle1 (Motorcycles repo1)\<rparr>
            in case validate motorcycle1 of
                 Some err \<Rightarrow> Returns (Inl err, motorcycle1, repo2)
               | None \<Rightarrow>
                   Returns (Inr motorcycle1, motorcycle1,
                            repo2\<lparr>Motorcycles := Motorcycles repo2 @ [motorcycle1]\<rparr>)))"

definition Update ::
  "validator \<Rightarrow> time \<Rightarrow> MotorcycleRepository \<Rightarrow> pointer
     \<Rightarrow> ((error + Motorcycle) \<times> Motorcycle \<times> MotorcycleRepository) outcome" where
  "Update validate now repo motorcycle =
     (if \<not> validPointer repo motorcycle then Panics
      else (let i = fst (findByID repo (ID (load repo motorcycle)))
            in if i = kPrimaryKeyID_DoesNotExist
               then Returns (Inl (New ''cannot update a motorcycle that does not exist''),
                             load repo motorcycle, repo)
               else (let motorcycle1 = (load repo motorcycle)\<lparr>ModifiedUtc := now\<rparr>;
                         repo1 = repo\<lparr>Motorcycles := written motorcycle motorcycle1 (Motorcycles repo)\<rparr>
                     in case validate motorcycle1 of
                          Some err \<Rightarrow> Returns (Inl err, motorcycle1, repo1)
                        | None \<Rightarrow>
                            Returns (Inr motorcycle1, motorcycle1,
                                     repo1\<lparr>Motorcycles := (Motorcycles repo1)[nat i := motorcycle1]\<rparr>))))"

definition removeIndex :: "MotorcycleRepository \<Rightarrow> nat \<Rightarrow> Motorcycle list" where
  "removeIndex repo index = take index (Motorcycles repo) @ drop (index + 1) (Motorcycles repo)"

definition Delete ::
  "MotorcycleRepository \<Rightarrow> pointer \<Rightarrow> (error option \<times> MotorcycleRepository) outcome" where
  "Delete repo motorcycle =
     (if \<not> validPointer repo motorcycle then Panics
      else (let i = fst (findByID repo (ID (load repo motorcycle)))
            in if i = kPrimaryKeyID_DoesNotExist
               then Returns (Some (New ''cannot delete a motorcycle that does not exist''), repo)
               else Returns (None, repo\<lparr>Motorcycles := removeIndex repo (nat i)\<rparr>)))"

definition Save :: "MotorcycleRepository \<Rightarrow> error option \<times> MotorcycleRepository" where
  "Save repo = (None, repo)"

subsection \<open>Sequences of calls\<close>

text \<open>
  A caller of the repository: a sequence of calls of the three mutating methods, each with
  the pointer it passes and, where the method reads the clock, the instant it reads.
  \<open>run\<close> gives the state after the calls, whatever each call returned; a call whose
  argument panics leaves the state as it is.
\<close>

datatype operation = OpInsert pointer time | OpUpdate pointer time | OpDelete pointer

fun step :: "validator \<Rightarrow> MotorcycleRepository \<Rightarrow> operation \<Rightarrow> MotorcycleRepository" where
  "step validate repo (OpInsert motorcycle now) =
     (case Insert validate now repo motorcycle of
        Panics \<Rightarrow> repo | Returns (res, entity, repo') \<Rightarrow> repo')"
| "step validate repo (OpUpdate motorcycle now) =
     (case Update validate now repo motorcycle of
        Panics \<Rightarrow> repo | Returns (res, entity, repo') \<Rightarrow> repo')"
| "step validate repo (OpDelete motorcycle) =
     (case Delete repo motorcycle of
        Panics \<Rightarrow> repo | Returns (err, repo') \<Rightarrow> repo')"

fun run :: "validator \<Rightarrow> MotorcycleRepository \<Rightarrow> operation list \<Rightarrow> MotorcycleRepository" where
  "run validate repo [] = repo"
| "run validate repo (op # ops) = run validate (step validate repo op) ops"

text \<open>
  The IDs handed out during the calls, in order: \<^verbatim>\<open>getNextID\<close> is the only writer of
  \<^verbatim>\<open>nextID\<close> and returns the value it writes, so a call handed out an ID exactly when it
  changed the counter, and the ID is the counter's new value.
\<close>

fun issued :: "validator \<Rightarrow> MotorcycleRepository \<Rightarrow> operation list \<Rightarrow> int list" where
  "issued validate repo [] = []"
| "issued validate repo (op # ops) =
     (if nextID (step validate repo op) = nextID repo then []
      else [nextID (step validate repo op)])
     @ issued validate (step validate repo op) ops"

text \<open>
  The counter wraps during the calls: some call takes an ID while the counter stands at the
  largest \<^verbatim>\<open>int\<close>.
\<close>

fun wraps :: "validator \<Rightarrow> MotorcycleRepository \<Rightarrow> operation list \<Rightarrow> bool" where
  "wraps validate repo [] = False"
| "wraps validate repo (op # ops) =
     ((nextID repo = MaxInt \<and> nextID (step validate repo op) \<noteq> nextID repo)
      \<or> wraps validate (step validate repo op) ops)"

text \<open>
  The invariant of the collection, as long as the counter has not wrapped: the IDs are
  strictly ascending, and none is above the counter.
\<close>

definition ascending :: "MotorcycleRepository \<Rightarrow> bool" where
  "ascending repo \<longleftrightarrow>
     sorted_wrt (<) (map ID (Motorcycles repo))
     \<and> list_all (\<lambda>k. k \<le> nextID repo) (map ID (Motorcycles repo))"

section \<open>The insert use case\<close>

text \<open>
  The interactor works on two interfaces. \<^verbatim>\<open>interfaces.AuthService\<close> has the two capabilities
  the use case asks for. The enumeration of roles is not among the sources:
  \<open>AdminAuthorizationRole\<close> is the one value the interactor names, \<open>OtherAuthorizationRole\<close>
  stands for the rest.
\<close>

datatype AuthorizationRole = AdminAuthorizationRole | OtherAuthorizationRole

record AuthService =
  IsAuthenticated :: bool
  IsAuthorized :: "AuthorizationRole \<Rightarrow> bool"

text \<open>
  \<^verbatim>\<open>interfaces.MotorcycleRepository\<close>, for a repository with states of type \<open>'r\<close>: the three
  methods \<^verbatim>\<open>Handle\<close> calls. \<^verbatim>\<open>FindByVin\<close> only reads; \<^verbatim>\<open>Insert\<close> and \<^verbatim>\<open>Save\<close> return the
  state they leave behind.
\<close>

record 'r RepositoryInterface =
  repoFindByVin :: "'r \<Rightarrow> string \<Rightarrow> Motorcycle option \<times> error option"
  repoInsert :: "'r \<Rightarrow> Motorcycle \<Rightarrow> (error + Motorcycle) \<times> 'r"
  repoSave :: "'r \<Rightarrow> error option \<times> 'r"

record 'r InsertMotorcycleInteractor =
  MotorcycleRepository :: "'r RepositoryInterface"
  AuthService :: AuthService

record InsertMotorcycleRequestMessage =
  reqMake :: string
  reqModel :: string
  reqYear :: int
  reqVin :: string

text \<open>
  \<^verbatim>\<open>Handle\<close>. Three declarations it uses are not among the sources and are parameters:
  the constant \<^verbatim>\<open>constants.InvalidEntityID\<close>, the constructor
  \<^verbatim>\<open>responsemessages.NewInsertMotorcycleResponseMessage\<close> (every \<^verbatim>\<open>return\<close> of \<^verbatim>\<open>Handle\<close> returns
  what this constructor returns for an ID and an error, a value of type \<open>'resp\<close>), and the
  constructor \<^verbatim>\<open>entities.NewMotorcycle\<close>. The result is what \<^verbatim>\<open>Handle\<close> returns and the state
  of the repository afterwards.
\<close>

definition Handle ::
  "int \<Rightarrow> (int \<Rightarrow> error option \<Rightarrow> 'resp)
     \<Rightarrow> (string \<Rightarrow> string \<Rightarrow> int \<Rightarrow> string \<Rightarrow> error + Motorcycle)
     \<Rightarrow> 'r InsertMotorcycleInteractor \<Rightarrow> 'r \<Rightarrow> InsertMotorcycleRequestMessage
     \<Rightarrow> 'resp \<times> 'r" where
  "Handle InvalidEntityID NewInsertMotorcycleResponseMessage NewMotorcycle
          interactor repo requestMessage =
     (if \<not> IsAuthenticated (AuthService interactor)
      then (NewInsertMotorcycleResponseMessage InvalidEntityID
              (Some (New ''insert operation failed due to not being authenticated, so please contact your system administrator'')),
            repo)
      else if \<not> IsAuthorized (AuthService interactor) AdminAuthorizationRole
      then (NewInsertMotorcycleResponseMessage InvalidEntityID
              (Some (New ''insert operation failed due to not having the required user authorization roles, so please contact your system administrator'')),
            repo)
      else case fst (repoFindByVin (MotorcycleRepository interactor) repo (reqVin requestMessage)) of
        Some moto \<Rightarrow>
          (NewInsertMotorcycleResponseMessage InvalidEntityID
             (Some (New ''insert operation failed due to a motorcycle with the same VIN already existing in the repository'')),
           repo)
      | None \<Rightarrow>
          (case NewMotorcycle (reqMake requestMessage) (reqModel requestMessage)
                  (reqYear requestMessage) (reqVin requestMessage) of
             Inl err \<Rightarrow> (NewInsertMotorcycleResponseMessage InvalidEntityID (Some err), repo)
           | Inr motorcycle \<Rightarrow>
               (case repoInsert (MotorcycleRepository interactor) repo motorcycle of
                  (Inl err, repo1) \<Rightarrow>
                    (NewInsertMotorcycleResponseMessage InvalidEntityID (Some err), repo1)
                | (Inr motorcycle1, repo1) \<Rightarrow>
                    (case repoSave (MotorcycleRepository interactor) repo1 of
                       (Some err, repo2) \<Rightarrow>
                         (NewInsertMotorcycleResponseMessage InvalidEntityID (Some err), repo2)
                     | (None, repo2) \<Rightarrow>
                         (NewInsertMotorcycleResponseMessage (ID motorcycle1) None, repo2)))))"

section \<open>The view model\<close>

record InsertMotorcycleViewModel =
  vmID :: int
  vmMessage :: string
  vmError :: "error option"

text \<open>
  \<^verbatim>\<open>Validate\<close>, with ozzo-validation's rules as the library documents them: on an \<^verbatim>\<open>int\<close>,
  \<^verbatim>\<open>Required\<close> rejects 0 and \<^verbatim>\<open>Min(c)\<close> rejects a value below \<open>c\<close>; on a \<^verbatim>\<open>string\<close>,
  \<^verbatim>\<open>Required\<close> and \<^verbatim>\<open>NilOrNotEmpty\<close> reject the empty string. \<^verbatim>\<open>ValidateStruct\<close> returns nil
  when no field breaks a rule, else the fields that do. The constant
  \<^verbatim>\<open>constant.MinEntityID\<close> is not among the sources and is a parameter.
\<close>

definition Validate :: "int \<Rightarrow> InsertMotorcycleViewModel \<Rightarrow> error option" where
  "Validate MinEntityID viewmodel =
     (let broken =
            (if vmID viewmodel = 0 \<or> vmID viewmodel < MinEntityID then [''id''] else [])
          @ (if vmMessage viewmodel = [] then [''message''] else [])
      in if broken = [] then None else Some (ValidationErrors broken))"

text \<open>
  \<^verbatim>\<open>viewModel.Error.Error()\<close> calls a method on an interface value; on a nil interface value
  that is a nil dereference, a run-time panic.
\<close>

definition NewInsertMotorcycleViewModel ::
  "int \<Rightarrow> int \<Rightarrow> string \<Rightarrow> error option
     \<Rightarrow> (InsertMotorcycleViewModel option \<times> error option) outcome" where
  "NewInsertMotorcycleViewModel MinEntityID id' message err =
     (let viewModel = \<lparr>vmID = id', vmMessage = message, vmError = err\<rparr>
      in case Validate MinEntityID viewModel of
           Some msgErr \<Rightarrow>
             (case vmError viewModel of
                None \<Rightarrow> Panics
              | Some e \<Rightarrow> Returns (None, Some (Wrap msgErr e)))
         | None \<Rightarrow> Returns (Some viewModel, None))"

section \<open>Sample data\<close>

text \<open>
  Two motorcycles, the Honda Shadow of 2006 of the repository's tests and a Harley Davidson,
  as a caller hands a new entity to the repository: ID 0 and no timestamp yet.
\<close>

definition honda :: Motorcycle where
  "honda = \<lparr>ID = 0, Make = ''Honda'', Model = ''Shadow'', Year = 2006,
             Vin = ''JH2RC4467WM000001'', CreatedUtc = 0, ModifiedUtc = 0\<rparr>"

definition harley :: Motorcycle where
  "harley = \<lparr>ID = 0, Make = ''Harley Davidson'', Model = ''Shadow'', Year = 2006,
              Vin = ''1HD1FAL11NY500561'', CreatedUtc = 0, ModifiedUtc = 0\<rparr>"

text \<open>
  A validator for the examples: the make is required. Any entity that
  \<^verbatim>\<open>Motorcycle.Validate\<close> rejects takes the same path through \<^verbatim>\<open>Insert\<close> and \<^verbatim>\<open>Update\<close>.
\<close>

definition requireMake :: validator where
  "requireMake motorcycle =
     (if Make motorcycle = [] then Some (ValidationErrors [''make'']) else None)"

text \<open>
  A repository whose exported field \<^verbatim>\<open>Motorcycles\<close> was filled by hand (or decoded from JSON,
  which the field's tag provides for) with two records that are not in ID order.
\<close>

definition unordered :: MotorcycleRepository where
  "unordered = \<lparr>nextID = 2, Motorcycles =
     [harley\<lparr>ID := 2, CreatedUtc := 20\<rparr>, honda\<lparr>ID := 1, CreatedUtc := 10\<rparr>]\<rparr>"

text \<open>The same, with a first record that has lost its make.\<close>

definition unorderedBlank :: MotorcycleRepository where
  "unorderedBlank = \<lparr>nextID = 2, Motorcycles =
     [harley\<lparr>ID := 2, Make := [], CreatedUtc := 20\<rparr>, honda\<lparr>ID := 1, CreatedUtc := 10\<rparr>]\<rparr>"

text \<open>
  An interactor for the examples, on the repository above. Its \<^verbatim>\<open>FindByVin\<close> searches the
  collection from the front, its \<^verbatim>\<open>Insert\<close> and \<^verbatim>\<open>Save\<close> are the repository's, with
  \<open>requireMake\<close> as the validator and the clock at \<open>now\<close> (\<^verbatim>\<open>Handle\<close> passes a pointer to the
  entity it has just constructed, so the call returns); its constructor of entities
  builds the entity with ID 0 and validates it; its response is the pair of the ID and the
  error it is constructed from.
\<close>

definition sampleNewMotorcycle :: "string \<Rightarrow> string \<Rightarrow> int \<Rightarrow> string \<Rightarrow> error + Motorcycle" where
  "sampleNewMotorcycle make' model year vin =
     (let motorcycle = \<lparr>ID = 0, Make = make', Model = model, Year = year, Vin = vin,
                         CreatedUtc = 0, ModifiedUtc = 0\<rparr>
      in case requireMake motorcycle of Some err \<Rightarrow> Inl err | None \<Rightarrow> Inr motorcycle)"

definition sampleRepository :: "time \<Rightarrow> MotorcycleRepository RepositoryInterface" where
  "sampleRepository now =
     \<lparr>repoFindByVin = (\<lambda>repo vin. (find (\<lambda>m. Vin m = vin) (Motorcycles repo), None)),
      repoInsert = (\<lambda>repo motorcycle.
         (case Insert requireMake now repo (Own motorcycle) of
            Returns (res, entity, repo') \<Rightarrow> (res, repo')
          | Panics \<Rightarrow> (Inl (New ''panic''), repo))),
      repoSave = Save\<rparr>"

definition sampleInteractor ::
  "time \<Rightarrow> bool \<Rightarrow> bool \<Rightarrow> MotorcycleRepository InsertMotorcycleInteractor" where
  "sampleInteractor now authenticated admin =
     \<lparr>MotorcycleRepository = sampleRepository now,
      AuthService = \<lparr>IsAuthenticated = authenticated,
                      IsAuthorized = (\<lambda>role. role = AdminAuthorizationRole \<and> admin)\<rparr>\<rparr>"

definition hondaRequest :: InsertMotorcycleRequestMessage where
  "hondaRequest = \<lparr>reqMake = ''Honda'', reqModel = ''Shadow'', reqYear = 2006,
                    reqVin = ''JH2RC4467WM000001''\<rparr>"

section \<open>Binary search on a collection in ascending ID order\<close>

lemma Search_loop_spec:
  assumes "\<And>a b. a \<le> b \<Longrightarrow> b < n \<Longrightarrow> f a \<Longrightarrow> f b"
    and "i \<le> j" and "j \<le> n"
    and "\<And>k. k < i \<Longrightarrow> \<not> f k"
    and "\<And>k. j \<le> k \<Longrightarrow> k < n \<Longrightarrow> f k"
  shows "Search_loop i j f \<le> n \<and> (\<forall>k < Search_loop i j f. \<not> f k)
       \<and> (\<forall>k. Search_loop i j f \<le> k \<and> k < n \<longrightarrow> f k)"
  using assms
proof (induction i j f rule: Search_loop.induct)
  case (1 i j f)
  show ?case
  proof (cases "i < j")
    case False
    then have eq: "Search_loop i j f = i" by (subst Search_loop.simps) simp
    from False "1.prems"(2) have "i = j" by simp
    with "1.prems" show ?thesis unfolding eq by auto
  next
    case True
    define h where "h = (i + j) div 2"
    have hb: "i \<le> h" "h < j" using True by (auto simp: h_def)
    show ?thesis
    proof (cases "f h")
      case False
      have eq: "Search_loop i j f = Search_loop (h + 1) j f"
        using True False by (subst Search_loop.simps) (simp add: h_def Let_def)
      have low: "\<And>k. k < h + 1 \<Longrightarrow> \<not> f k"
      proof -
        fix k assume "k < h + 1"
        then have "k \<le> h" by simp
        moreover have "h < n" using hb "1.prems"(3) by simp
        ultimately show "\<not> f k" using "1.prems"(1) [of k h] False by blast
      qed
      have "h + 1 \<le> j" using hb by simp
      from "1.IH"(1) [OF True h_def False "1.prems"(1) this "1.prems"(3) low "1.prems"(5)]
      show ?thesis unfolding eq by simp
    next
      case T: True
      have eq: "Search_loop i j f = Search_loop i h f"
        using True T by (subst Search_loop.simps) (simp add: h_def Let_def)
      have high: "\<And>k. h \<le> k \<Longrightarrow> k < n \<Longrightarrow> f k"
        using "1.prems"(1) T by blast
      have "h \<le> n" using hb "1.prems"(3) by simp
      have T': "\<not> \<not> f h" using T by simp
      from "1.IH"(2) [OF True h_def T' "1.prems"(1) hb(1) \<open>h \<le> n\<close> "1.prems"(4) high]
      show ?thesis unfolding eq by simp
    qed
  qed
qed

lemma Search_least:
  assumes mono: "\<And>a b. a \<le> b \<Longrightarrow> b < n \<Longrightarrow> f a \<Longrightarrow> f b"
  shows "Search n f \<le> n \<and> (\<forall>k < Search n f. \<not> f k) \<and> (\<forall>k. Search n f \<le> k \<and> k < n \<longrightarrow> f k)"
  unfolding Search_def by (rule Search_loop_spec [OF mono]) simp_all

lemma Search_sorted_index:
  fixes g :: "nat \<Rightarrow> int"
  assumes lt: "\<And>a b. a < b \<Longrightarrow> b < n \<Longrightarrow> g a < g b" and p: "p < n"
  shows "Search n (\<lambda>i. g i \<ge> g p) = p"
proof -
  define r where "r = Search n (\<lambda>i. g i \<ge> g p)"
  have mono: "\<And>a b. a \<le> b \<Longrightarrow> b < n \<Longrightarrow> g p \<le> g a \<Longrightarrow> g p \<le> g b"
  proof -
    fix a b assume ab: "a \<le> b" "b < n" "g p \<le> g a"
    show "g p \<le> g b"
    proof (cases "a = b")
      case True with ab show ?thesis by simp
    next
      case False
      with ab have "a < b" by simp
      from lt [OF this ab(2)] ab(3) show ?thesis by simp
    qed
  qed
  have S: "r \<le> n \<and> (\<forall>k < r. \<not> g p \<le> g k) \<and> (\<forall>k. r \<le> k \<and> k < n \<longrightarrow> g p \<le> g k)"
    unfolding r_def by (rule Search_least [of n "\<lambda>i. g p \<le> g i"]) (rule mono)
  have "\<not> p < r"
  proof
    assume "p < r"
    with S have "\<not> g p \<le> g p" by blast
    then show False by simp
  qed
  then have rp: "r \<le> p" by simp
  with p have rn: "r < n" by simp
  from S rn have fr: "g p \<le> g r" by blast
  have "r = p"
  proof (rule ccontr)
    assume "r \<noteq> p"
    with rp have "r < p" by simp
    from lt [OF this p] fr show False by simp
  qed
  then show ?thesis by (simp add: r_def)
qed

lemma findByID_found:
  assumes srt: "sorted_wrt (<) (map ID (Motorcycles repo))"
    and p: "p < length (Motorcycles repo)"
  shows "findByID repo (ID (Motorcycles repo ! p)) = (int p, None)"
proof -
  have lt: "\<And>a b. a < b \<Longrightarrow> b < length (Motorcycles repo)
              \<Longrightarrow> ID (Motorcycles repo ! a) < ID (Motorcycles repo ! b)"
  proof -
    fix a b assume ab: "a < b" "b < length (Motorcycles repo)"
    then have "map ID (Motorcycles repo) ! a < map ID (Motorcycles repo) ! b"
      using srt by (simp only: sorted_wrt_iff_nth_less length_map)
    with ab show "ID (Motorcycles repo ! a) < ID (Motorcycles repo ! b)" by simp
  qed
  have "Search (length (Motorcycles repo))
          (\<lambda>i. ID (Motorcycles repo ! i) \<ge> ID (Motorcycles repo ! p)) = p"
    by (rule Search_sorted_index [of "length (Motorcycles repo)" "\<lambda>i. ID (Motorcycles repo ! i)" p])
       (rule lt, assumption+, rule p)
  then show ?thesis using p by (simp add: findByID_def)
qed

lemma findByID_result:
  "findByID repo k = (-1, Some (New ''motorcycle was not found''))
   \<or> (\<exists>p < length (Motorcycles repo). ID (Motorcycles repo ! p) = k
                 \<and> findByID repo k = (int p, None))"
  by (simp add: findByID_def Let_def)

lemma findByID_absent:
  assumes "k \<notin> ID ` set (Motorcycles repo)"
  shows "findByID repo k = (-1, Some (New ''motorcycle was not found''))"
proof -
  have "\<And>p. p < length (Motorcycles repo) \<Longrightarrow> ID (Motorcycles repo ! p) \<noteq> k"
    using assms by (metis image_eqI nth_mem)
  then show ?thesis using findByID_result [of repo k] by blast
qed

lemma findByID_present:
  assumes srt: "sorted_wrt (<) (map ID (Motorcycles repo))"
    and k: "k \<in> ID ` set (Motorcycles repo)"
  shows "\<exists>p < length (Motorcycles repo). ID (Motorcycles repo ! p) = k
            \<and> findByID repo k = (int p, None)"
proof -
  from k obtain m where "m \<in> set (Motorcycles repo)" "ID m = k" by blast
  then obtain p where p: "p < length (Motorcycles repo)" "Motorcycles repo ! p = m"
    by (auto simp: in_set_conv_nth)
  from findByID_found [OF srt p(1)] p \<open>ID m = k\<close> show ?thesis by auto
qed

section \<open>The three methods, case by case\<close>

lemma inc_less: "x \<noteq> MaxInt \<Longrightarrow> inc x = x + 1"
  by (simp add: inc_def)

lemma MinInt_less_MaxInt: "MinInt < MaxInt"
  by (simp add: MinInt_def MaxInt_def)

lemma load_nextID: "load (repo\<lparr>nextID := k\<rparr>) ptr = load repo ptr"
  by (cases ptr) simp_all

lemma IDs_written:
  assumes "validPointer repo ptr" and "ID m1 = ID (load repo ptr)"
  shows "map ID (written ptr m1 (Motorcycles repo)) = map ID (Motorcycles repo)"
proof (cases ptr)
  case (Own m)
  then show ?thesis by simp
next
  case (Element j)
  then show ?thesis using assms by (simp add: map_update list_update_same_conv)
qed

lemma Insert_cases:
  assumes "validPointer repo ptr"
    and "m1 = (load repo ptr)\<lparr>ID := inc (nextID repo), CreatedUtc := now\<rparr>"
  shows "(fst (findByID repo (ID (load repo ptr))) \<noteq> kPrimaryKeyID_DoesNotExist \<longrightarrow>
            Insert validate now repo ptr
            = Returns (Inl (New ''cannot insert this motorcycle because the ID already exists''),
                       load repo ptr, repo))
       \<and> (fst (findByID repo (ID (load repo ptr))) = kPrimaryKeyID_DoesNotExist \<longrightarrow>
            (\<forall>err. validate m1 = Some err \<longrightarrow>
               Insert validate now repo ptr
               = Returns (Inl err, m1,
                   repo\<lparr>nextID := inc (nextID repo),
                        Motorcycles := written ptr m1 (Motorcycles repo)\<rparr>))
          \<and> (validate m1 = None \<longrightarrow>
               Insert validate now repo ptr
               = Returns (Inr m1, m1,
                   repo\<lparr>nextID := inc (nextID repo),
                        Motorcycles := written ptr m1 (Motorcycles repo) @ [m1]\<rparr>)))"
  using assms by (simp add: Insert_def getNextID_def Let_def load_nextID)

lemma Update_cases:
  assumes "validPointer repo ptr"
    and "m1 = (load repo ptr)\<lparr>ModifiedUtc := now\<rparr>"
  shows "(fst (findByID repo (ID (load repo ptr))) = kPrimaryKeyID_DoesNotExist \<longrightarrow>
            Update validate now repo ptr
            = Returns (Inl (New ''cannot update a motorcycle that does not exist''),
                       load repo ptr, repo))
       \<and> (fst (findByID repo (ID (load repo ptr))) \<noteq> kPrimaryKeyID_DoesNotExist \<longrightarrow>
            (\<forall>err. validate m1 = Some err \<longrightarrow>
               Update validate now repo ptr
               = Returns (Inl err, m1, repo\<lparr>Motorcycles := written ptr m1 (Motorcycles repo)\<rparr>))
          \<and> (validate m1 = None \<longrightarrow>
               Update validate now repo ptr
               = Returns (Inr m1, m1,
                   repo\<lparr>Motorcycles := (written ptr m1 (Motorcycles repo))
                                           [nat (fst (findByID repo (ID (load repo ptr)))) := m1]\<rparr>)))"
  using assms by (simp add: Update_def Let_def)

lemma Delete_cases:
  assumes "validPointer repo ptr"
  shows "(fst (findByID repo (ID (load repo ptr))) = kPrimaryKeyID_DoesNotExist \<longrightarrow>
            Delete repo ptr
            = Returns (Some (New ''cannot delete a motorcycle that does not exist''), repo))
       \<and> (fst (findByID repo (ID (load repo ptr))) \<noteq> kPrimaryKeyID_DoesNotExist \<longrightarrow>
            Delete repo ptr
            = Returns (None, repo\<lparr>Motorcycles :=
                take (nat (fst (findByID repo (ID (load repo ptr))))) (Motorcycles repo)
                @ drop (Suc (nat (fst (findByID repo (ID (load repo ptr)))))) (Motorcycles repo)\<rparr>))"
  using assms by (simp add: Delete_def Let_def removeIndex_def)

lemma invalid_Panics:
  assumes "\<not> validPointer repo ptr"
  shows "Insert validate now repo ptr = Panics" and "Update validate now repo ptr = Panics"
    and "Delete repo ptr = Panics"
  using assms by (simp_all add: Insert_def Update_def Delete_def)

text \<open>\<^verbatim>\<open>Update\<close> never changes the IDs of the collection, \<^verbatim>\<open>Delete\<close> only removes.\<close>

lemma IDs_Update: "map ID (Motorcycles (step validate repo (OpUpdate ptr now))) = map ID (Motorcycles repo)"
proof (cases "validPointer repo ptr")
  case False
  then show ?thesis by (simp add: invalid_Panics)
next
  case True
  define m1 where "m1 = (load repo ptr)\<lparr>ModifiedUtc := now\<rparr>"
  have w: "map ID (written ptr m1 (Motorcycles repo)) = map ID (Motorcycles repo)"
    using True by (rule IDs_written) (simp add: m1_def)
  note U = Update_cases [OF True m1_def, of validate]
  from findByID_result [of repo "ID (load repo ptr)"]
  show ?thesis
  proof
    assume "findByID repo (ID (load repo ptr)) = (-1, Some (New ''motorcycle was not found''))"
    then show ?thesis using U by (simp add: kPrimaryKeyID_DoesNotExist_def)
  next
    assume "\<exists>p < length (Motorcycles repo). ID (Motorcycles repo ! p) = ID (load repo ptr)
              \<and> findByID repo (ID (load repo ptr)) = (int p, None)"
    then obtain p where p: "p < length (Motorcycles repo)"
      "ID (Motorcycles repo ! p) = ID (load repo ptr)"
      "findByID repo (ID (load repo ptr)) = (int p, None)" by blast
    have nf: "fst (findByID repo (ID (load repo ptr))) \<noteq> kPrimaryKeyID_DoesNotExist"
      using p(3) by (simp add: kPrimaryKeyID_DoesNotExist_def)
    have "map ID ((written ptr m1 (Motorcycles repo))[p := m1]) = map ID (Motorcycles repo)"
    proof -
      have "map ID ((written ptr m1 (Motorcycles repo))[p := m1])
            = (map ID (Motorcycles repo))[p := ID m1]"
        by (simp add: map_update w)
      also have "\<dots> = map ID (Motorcycles repo)"
        using p by (simp add: list_update_same_conv m1_def)
      finally show ?thesis .
    qed
    then show ?thesis
      using U nf p(3) w by (cases "validate m1") auto
  qed
qed

lemma set_Delete: "set (Motorcycles (step validate repo (OpDelete ptr))) \<subseteq> set (Motorcycles repo)"
proof (cases "validPointer repo ptr")
  case False
  then show ?thesis by (simp add: invalid_Panics)
next
  case True
  have "set (take p (Motorcycles repo) @ drop (Suc p) (Motorcycles repo)) \<subseteq> set (Motorcycles repo)" for p
    by (metis Un_least set_append set_take_subset set_drop_subset)
  then show ?thesis
    using Delete_cases [OF True]
    by (cases "fst (findByID repo (ID (load repo ptr))) = kPrimaryKeyID_DoesNotExist") auto
qed

section \<open>The collection stays in ascending ID order until the counter wraps\<close>

lemma ascending_New: "ascending (NewMotorcycleRepository n)"
  by (simp add: ascending_def NewMotorcycleRepository_def)

lemma miss_not_Element:
  assumes srt: "sorted_wrt (<) (map ID (Motorcycles repo))"
    and v: "validPointer repo ptr"
    and miss: "fst (findByID repo (ID (load repo ptr))) = kPrimaryKeyID_DoesNotExist"
  shows "written ptr m1 (Motorcycles repo) = Motorcycles repo"
proof (cases ptr)
  case (Own m)
  then show ?thesis by simp
next
  case (Element j)
  with v have j: "j < length (Motorcycles repo)" by simp
  from findByID_found [OF srt j] miss Element
  show ?thesis by (simp add: kPrimaryKeyID_DoesNotExist_def)
qed

lemma ascending_Insert:
  assumes asc: "ascending repo"
    and nw: "\<not> (nextID repo = MaxInt \<and> nextID (step validate repo (OpInsert ptr now)) \<noteq> nextID repo)"
  shows "ascending (step validate repo (OpInsert ptr now))
       \<and> nextID repo \<le> nextID (step validate repo (OpInsert ptr now))"
proof (cases "validPointer repo ptr")
  case False
  then show ?thesis using asc by (simp add: invalid_Panics)
next
  case True
  define m1 where "m1 = (load repo ptr)\<lparr>ID := inc (nextID repo), CreatedUtc := now\<rparr>"
  note I = Insert_cases [OF True m1_def, of validate]
  show ?thesis
  proof (cases "fst (findByID repo (ID (load repo ptr))) = kPrimaryKeyID_DoesNotExist")
    case False
    then show ?thesis using I asc by simp
  next
    case miss: True
    have srt: "sorted_wrt (<) (map ID (Motorcycles repo))" using asc by (simp add: ascending_def)
    have w: "written ptr m1 (Motorcycles repo) = Motorcycles repo"
      using srt True miss by (rule miss_not_Element)
    have ne: "inc (nextID repo) \<noteq> nextID repo"
      using MinInt_less_MaxInt by (simp add: inc_def)
    have ch: "nextID (step validate repo (OpInsert ptr now)) = inc (nextID repo)"
      using I miss by (cases "validate m1") auto
    from nw ch ne have "nextID repo \<noteq> MaxInt" by metis
    then have i: "inc (nextID repo) = nextID repo + 1" by (rule inc_less)
    have below: "\<forall>k \<in> set (map ID (Motorcycles repo)). k < nextID repo + 1"
      using asc by (auto simp: ascending_def list_all_iff)
    show ?thesis
    proof (cases "validate m1")
      case None
      then have "step validate repo (OpInsert ptr now)
                 = repo\<lparr>nextID := nextID repo + 1, Motorcycles := Motorcycles repo @ [m1]\<rparr>"
        using I miss w i by simp
      moreover have "ID m1 = nextID repo + 1" by (simp add: m1_def i)
      ultimately show ?thesis
        using asc below by (auto simp: ascending_def list_all_iff sorted_wrt_append)
    next
      case (Some err)
      then have "step validate repo (OpInsert ptr now) = repo\<lparr>nextID := nextID repo + 1\<rparr>"
        using I miss w i by simp
      then show ?thesis
        using asc below by (auto simp: ascending_def list_all_iff)
    qed
  qed
qed

lemma ascending_Update:
  assumes "ascending repo"
  shows "ascending (step validate repo (OpUpdate ptr now))
       \<and> nextID (step validate repo (OpUpdate ptr now)) = nextID repo"
proof -
  have n: "nextID (step validate repo (OpUpdate ptr now)) = nextID repo"
  proof (cases "validPointer repo ptr")
    case False
    then show ?thesis by (simp add: invalid_Panics)
  next
    case True
    define m1 where "m1 = (load repo ptr)\<lparr>ModifiedUtc := now\<rparr>"
    from Update_cases [OF True m1_def, of validate] show ?thesis
      by (cases "fst (findByID repo (ID (load repo ptr))) = kPrimaryKeyID_DoesNotExist";
          cases "validate m1") auto
  qed
  with assms IDs_Update [of validate repo ptr now] show ?thesis
    by (simp add: ascending_def)
qed

lemma sorted_wrt_remove_nth:
  assumes "sorted_wrt P xs"
  shows "sorted_wrt P (take p xs @ drop (Suc p) xs)"
proof -
  have "sorted_wrt P (take p xs @ drop p xs)" using assms by simp
  then have c: "\<forall>x \<in> set (take p xs). \<forall>y \<in> set (drop p xs). P x y"
    unfolding sorted_wrt_append by blast
  have "set (drop (Suc p) xs) \<subseteq> set (drop p xs)"
    by (rule set_drop_subset_set_drop) simp
  with c have "\<forall>x \<in> set (take p xs). \<forall>y \<in> set (drop (Suc p) xs). P x y" by blast
  then show ?thesis
    using assms by (simp add: sorted_wrt_append sorted_wrt_take sorted_wrt_drop)
qed

lemma ascending_Delete:
  assumes "ascending repo"
  shows "ascending (step validate repo (OpDelete ptr))
       \<and> nextID (step validate repo (OpDelete ptr)) = nextID repo"
proof (cases "validPointer repo ptr")
  case False
  then show ?thesis using assms by (simp add: invalid_Panics)
next
  case True
  note D = Delete_cases [OF True]
  show ?thesis
  proof (cases "fst (findByID repo (ID (load repo ptr))) = kPrimaryKeyID_DoesNotExist")
    case True
    then show ?thesis using D assms by simp
  next
    case False
    let ?p = "nat (fst (findByID repo (ID (load repo ptr))))"
    let ?ms = "take ?p (Motorcycles repo) @ drop (Suc ?p) (Motorcycles repo)"
    have st: "step validate repo (OpDelete ptr) = repo\<lparr>Motorcycles := ?ms\<rparr>"
      using D False by simp
    have eq: "map ID ?ms = take ?p (map ID (Motorcycles repo)) @ drop (Suc ?p) (map ID (Motorcycles repo))"
      by (simp add: take_map drop_map)
    have s: "sorted_wrt (<) (map ID ?ms)"
      unfolding eq using assms by (intro sorted_wrt_remove_nth) (simp add: ascending_def)
    have "set (map ID ?ms) \<subseteq> set (map ID (Motorcycles repo))"
      unfolding eq by (metis Un_least set_append set_take_subset set_drop_subset)
    then have b: "list_all (\<lambda>k. k \<le> nextID repo) (map ID ?ms)"
      using assms unfolding ascending_def list_all_iff by blast
    show ?thesis unfolding st using s b by (simp add: ascending_def)
  qed
qed

lemma ascending_step:
  assumes "ascending repo"
    and "\<not> (nextID repo = MaxInt \<and> nextID (step validate repo op) \<noteq> nextID repo)"
  shows "ascending (step validate repo op) \<and> nextID repo \<le> nextID (step validate repo op)"
proof (cases op)
  case (OpInsert ptr now)
  with assms ascending_Insert [of repo validate ptr now] show ?thesis by simp
next
  case (OpUpdate ptr now)
  with assms(1) ascending_Update [of repo validate ptr now] show ?thesis by simp
next
  case (OpDelete ptr)
  with assms(1) ascending_Delete [of repo validate ptr] show ?thesis by simp
qed

lemma ascending_run:
  assumes "ascending repo" and "\<not> wraps validate repo ops"
  shows "ascending (run validate repo ops) \<and> nextID repo \<le> nextID (run validate repo ops)"
  using assms
proof (induction ops arbitrary: repo)
  case Nil
  then show ?case by simp
next
  case (Cons op ops)
  from Cons.prems(2)
  have nw: "\<not> (nextID repo = MaxInt \<and> nextID (step validate repo op) \<noteq> nextID repo)"
    and rest: "\<not> wraps validate (step validate repo op) ops" by simp_all
  from ascending_step [OF Cons.prems(1) nw]
  have a: "ascending (step validate repo op)" and n: "nextID repo \<le> nextID (step validate repo op)"
    by simp_all
  from Cons.IH [OF a rest] n show ?case by simp
qed

lemma issued_bound:
  assumes "ascending repo" and "\<not> wraps validate repo ops"
    and "k \<in> set (issued validate repo ops)"
  shows "k \<le> nextID (run validate repo ops)"
  using assms
proof (induction ops arbitrary: repo)
  case Nil
  then show ?case by simp
next
  case (Cons op ops)
  from Cons.prems(2)
  have nw: "\<not> (nextID repo = MaxInt \<and> nextID (step validate repo op) \<noteq> nextID repo)"
    and rest: "\<not> wraps validate (step validate repo op) ops" by simp_all
  from ascending_step [OF Cons.prems(1) nw]
  have a: "ascending (step validate repo op)" by simp
  from Cons.prems(3) consider
    "k = nextID (step validate repo op)" |
    "k \<in> set (issued validate (step validate repo op) ops)"
    by (auto split: if_splits)
  then show ?case
  proof cases
    case 1
    then show ?thesis using ascending_run [OF a rest] by simp
  next
    case 2
    then show ?thesis using Cons.IH [OF a rest] by simp
  qed
qed

lemma reach_ascending:
  assumes "\<not> wraps validate (NewMotorcycleRepository n) ops"
  shows "ascending (run validate (NewMotorcycleRepository n) ops)"
    and "n \<le> nextID (run validate (NewMotorcycleRepository n) ops)"
  using ascending_run [OF ascending_New assms] by (simp_all add: NewMotorcycleRepository_def)

section \<open>An ID below the counter stays unused until the counter wraps\<close>

lemma nextID_Update: "nextID (step validate repo (OpUpdate ptr now)) = nextID repo"
proof (cases "validPointer repo ptr")
  case False
  then show ?thesis by (simp add: invalid_Panics)
next
  case True
  define m1 where "m1 = (load repo ptr)\<lparr>ModifiedUtc := now\<rparr>"
  from Update_cases [OF True m1_def, of validate] show ?thesis
    by (cases "fst (findByID repo (ID (load repo ptr))) = kPrimaryKeyID_DoesNotExist";
        cases "validate m1") auto
qed

lemma nextID_Delete: "nextID (step validate repo (OpDelete ptr)) = nextID repo"
proof (cases "validPointer repo ptr")
  case False
  then show ?thesis by (simp add: invalid_Panics)
next
  case True
  from Delete_cases [OF True] show ?thesis
    by (cases "fst (findByID repo (ID (load repo ptr))) = kPrimaryKeyID_DoesNotExist") auto
qed

lemma set_written: "set (written ptr m1 ms) \<subseteq> insert m1 (set ms)"
  by (cases ptr) (simp_all add: subset_insertI set_update_subset_insert)

lemma unused_Insert:
  assumes k: "k \<le> nextID repo" and un: "k \<notin> ID ` set (Motorcycles repo)"
    and nw: "\<not> (nextID repo = MaxInt \<and> nextID (step validate repo (OpInsert ptr now)) \<noteq> nextID repo)"
  shows "k \<notin> ID ` set (Motorcycles (step validate repo (OpInsert ptr now)))
       \<and> k \<le> nextID (step validate repo (OpInsert ptr now))"
proof (cases "validPointer repo ptr")
  case False
  then show ?thesis using k un by (simp add: invalid_Panics)
next
  case True
  define m1 where "m1 = (load repo ptr)\<lparr>ID := inc (nextID repo), CreatedUtc := now\<rparr>"
  note I = Insert_cases [OF True m1_def, of validate]
  show ?thesis
  proof (cases "fst (findByID repo (ID (load repo ptr))) = kPrimaryKeyID_DoesNotExist")
    case False
    then show ?thesis using I k un by simp
  next
    case miss: True
    have ne: "inc (nextID repo) \<noteq> nextID repo"
      using MinInt_less_MaxInt by (simp add: inc_def)
    have ch: "nextID (step validate repo (OpInsert ptr now)) = inc (nextID repo)"
      using I miss by (cases "validate m1") auto
    from nw ch ne have "nextID repo \<noteq> MaxInt" by metis
    then have i: "inc (nextID repo) = nextID repo + 1" by (rule inc_less)
    have idm: "ID m1 = nextID repo + 1" by (simp add: m1_def i)
    have w: "k \<notin> ID ` set (written ptr m1 (Motorcycles repo))"
    proof
      assume "k \<in> ID ` set (written ptr m1 (Motorcycles repo))"
      then obtain x where x: "x \<in> set (written ptr m1 (Motorcycles repo))" "k = ID x"
        by (rule imageE)
      with set_written [of ptr m1 "Motorcycles repo"]
      have "x = m1 \<or> x \<in> set (Motorcycles repo)" by blast
      then show False
      proof
        assume "x = m1"
        with x(2) idm k show False by simp
      next
        assume "x \<in> set (Motorcycles repo)"
        with x(2) un show False by blast
      qed
    qed
    have sets: "ID ` set (Motorcycles (step validate repo (OpInsert ptr now)))
                \<subseteq> insert (ID m1) (ID ` set (written ptr m1 (Motorcycles repo)))"
      using I miss by (cases "validate m1") auto
    have "k \<noteq> ID m1" using idm k by simp
    with w sets have "k \<notin> ID ` set (Motorcycles (step validate repo (OpInsert ptr now)))"
      by blast
    moreover have "k \<le> nextID (step validate repo (OpInsert ptr now))"
      using ch i k by simp
    ultimately show ?thesis by simp
  qed
qed

lemma unused_step:
  assumes "k \<le> nextID repo" and "k \<notin> ID ` set (Motorcycles repo)"
    and "\<not> (nextID repo = MaxInt \<and> nextID (step validate repo op) \<noteq> nextID repo)"
  shows "k \<notin> ID ` set (Motorcycles (step validate repo op)) \<and> k \<le> nextID (step validate repo op)"
proof (cases op)
  case (OpInsert ptr now)
  with assms unused_Insert [of k repo validate ptr now] show ?thesis by simp
next
  case (OpUpdate ptr now)
  have "ID ` set (Motorcycles (step validate repo (OpUpdate ptr now))) = ID ` set (Motorcycles repo)"
    using IDs_Update [of validate repo ptr now] by (metis set_map)
  with assms OpUpdate nextID_Update [of validate repo ptr now] show ?thesis by simp
next
  case (OpDelete ptr)
  with assms set_Delete [of validate repo ptr] nextID_Delete [of validate repo ptr]
  show ?thesis by auto
qed

lemma unused_run:
  assumes "k \<le> nextID repo" and "k \<notin> ID ` set (Motorcycles repo)"
    and "\<not> wraps validate repo ops"
  shows "k \<notin> ID ` set (Motorcycles (run validate repo ops))"
  using assms
proof (induction ops arbitrary: repo)
  case Nil
  then show ?case by simp
next
  case (Cons op ops)
  from Cons.prems(3)
  have nw: "\<not> (nextID repo = MaxInt \<and> nextID (step validate repo op) \<noteq> nextID repo)"
    and rest: "\<not> wraps validate (step validate repo op) ops" by simp_all
  from unused_step [OF Cons.prems(1,2) nw]
  have "k \<notin> ID ` set (Motorcycles (step validate repo op))" "k \<le> nextID (step validate repo op)"
    by simp_all
  from Cons.IH [OF this(2) this(1) rest] show ?case by simp
qed

section \<open>Small cases\<close>

text \<open>\<^verbatim>\<open>sort.Search\<close> on a collection of up to two records.\<close>

lemma Search_0: "Search 0 f = 0"
  by (simp add: Search_def Search_loop.simps)

lemma Search_1: "Search (Suc 0) f = (if f 0 then 0 else 1)"
  by (simp add: Search_def Search_loop.simps [of 0 "Suc 0"] Search_loop.simps [of 0 0]
        Search_loop.simps [of "Suc 0" "Suc 0"])

lemma Search_2: "Search (Suc (Suc 0)) f = (if f 1 then (if f 0 then 0 else 1) else 2)"
  by (simp add: Search_def Search_loop.simps [of 0 "Suc (Suc 0)"]
        Search_loop.simps [of 0 "Suc 0"] Search_loop.simps [of 0 0]
        Search_loop.simps [of "Suc 0" "Suc 0"] Search_loop.simps [of "Suc (Suc 0)" "Suc (Suc 0)"])

section \<open>The claims\<close>

text \<open>
  C1: \<^verbatim>\<open>Handle\<close> checks authentication, authorization, the VIN, the construction of the
  entity, the repository's \<^verbatim>\<open>Insert\<close> and its \<^verbatim>\<open>Save\<close>, in this order, and stops at the first
  that fails: each failure returns the response constructed from \<^verbatim>\<open>InvalidEntityID\<close> and the
  error, with the repository as the calls made so far left it, and only when all six pass
  does it return the response constructed from the inserted motorcycle's ID and a nil
  error.
\<close>

theorem Handle_gates_in_order:
  fixes interactor :: "'r InsertMotorcycleInteractor"
    and NewInsertMotorcycleResponseMessage :: "int \<Rightarrow> error option \<Rightarrow> 'resp"
  shows
  "(\<not> IsAuthenticated (AuthService interactor) \<longrightarrow>
      Handle InvalidEntityID NewInsertMotorcycleResponseMessage NewMotorcycle interactor repo req
      = (NewInsertMotorcycleResponseMessage InvalidEntityID
           (Some (New ''insert operation failed due to not being authenticated, so please contact your system administrator'')),
         repo))
   \<and> (IsAuthenticated (AuthService interactor)
        \<and> \<not> IsAuthorized (AuthService interactor) AdminAuthorizationRole \<longrightarrow>
      Handle InvalidEntityID NewInsertMotorcycleResponseMessage NewMotorcycle interactor repo req
      = (NewInsertMotorcycleResponseMessage InvalidEntityID
           (Some (New ''insert operation failed due to not having the required user authorization roles, so please contact your system administrator'')),
         repo))
   \<and> (IsAuthenticated (AuthService interactor)
        \<and> IsAuthorized (AuthService interactor) AdminAuthorizationRole \<longrightarrow>
        (fst (repoFindByVin (MotorcycleRepository interactor) repo (reqVin req)) \<noteq> None \<longrightarrow>
           Handle InvalidEntityID NewInsertMotorcycleResponseMessage NewMotorcycle interactor repo req
           = (NewInsertMotorcycleResponseMessage InvalidEntityID
                (Some (New ''insert operation failed due to a motorcycle with the same VIN already existing in the repository'')),
              repo))
      \<and> (fst (repoFindByVin (MotorcycleRepository interactor) repo (reqVin req)) = None \<longrightarrow>
           (\<forall>err. NewMotorcycle (reqMake req) (reqModel req) (reqYear req) (reqVin req) = Inl err \<longrightarrow>
              Handle InvalidEntityID NewInsertMotorcycleResponseMessage NewMotorcycle interactor repo req
              = (NewInsertMotorcycleResponseMessage InvalidEntityID (Some err), repo))
         \<and> (\<forall>motorcycle.
              NewMotorcycle (reqMake req) (reqModel req) (reqYear req) (reqVin req) = Inr motorcycle \<longrightarrow>
              (\<forall>err repo1.
                 repoInsert (MotorcycleRepository interactor) repo motorcycle = (Inl err, repo1) \<longrightarrow>
                 Handle InvalidEntityID NewInsertMotorcycleResponseMessage NewMotorcycle interactor repo req
                 = (NewInsertMotorcycleResponseMessage InvalidEntityID (Some err), repo1))
            \<and> (\<forall>motorcycle1 repo1.
                 repoInsert (MotorcycleRepository interactor) repo motorcycle = (Inr motorcycle1, repo1) \<longrightarrow>
                 (\<forall>err repo2.
                    repoSave (MotorcycleRepository interactor) repo1 = (Some err, repo2) \<longrightarrow>
                    Handle InvalidEntityID NewInsertMotorcycleResponseMessage NewMotorcycle interactor repo req
                    = (NewInsertMotorcycleResponseMessage InvalidEntityID (Some err), repo2))
               \<and> (\<forall>repo2.
                    repoSave (MotorcycleRepository interactor) repo1 = (None, repo2) \<longrightarrow>
                    Handle InvalidEntityID NewInsertMotorcycleResponseMessage NewMotorcycle interactor repo req
                    = (NewInsertMotorcycleResponseMessage (ID motorcycle1) None, repo2))))))"
  by (auto simp: Handle_def)

theorem Handle_gates_in_order_witness:
  "Handle (-1) Pair sampleNewMotorcycle (sampleInteractor 10 False True)
     (NewMotorcycleRepository 0) hondaRequest
   = ((-1, Some (New ''insert operation failed due to not being authenticated, so please contact your system administrator'')),
      NewMotorcycleRepository 0)
   \<and> Handle (-1) Pair sampleNewMotorcycle (sampleInteractor 10 True False)
     (NewMotorcycleRepository 0) hondaRequest
   = ((-1, Some (New ''insert operation failed due to not having the required user authorization roles, so please contact your system administrator'')),
      NewMotorcycleRepository 0)
   \<and> Handle (-1) Pair sampleNewMotorcycle (sampleInteractor 20 True True)
     \<lparr>nextID = 1, Motorcycles = [honda\<lparr>ID := 1, CreatedUtc := 10\<rparr>]\<rparr> hondaRequest
   = ((-1, Some (New ''insert operation failed due to a motorcycle with the same VIN already existing in the repository'')),
      \<lparr>nextID = 1, Motorcycles = [honda\<lparr>ID := 1, CreatedUtc := 10\<rparr>]\<rparr>)
   \<and> Handle (-1) Pair sampleNewMotorcycle (sampleInteractor 10 True True)
     (NewMotorcycleRepository 0) (hondaRequest\<lparr>reqMake := []\<rparr>)
   = ((-1, Some (ValidationErrors [''make''])), NewMotorcycleRepository 0)
   \<and> Handle (-1) Pair sampleNewMotorcycle (sampleInteractor 10 True True)
     (NewMotorcycleRepository 0) hondaRequest
   = ((1, None), \<lparr>nextID = 1, Motorcycles = [honda\<lparr>ID := 1, CreatedUtc := 10\<rparr>]\<rparr>)"
proof -
  let ?H = "Handle (-1) Pair sampleNewMotorcycle"
  let ?new = "NewMotorcycleRepository 0"
  let ?one = "\<lparr>nextID = 1, Motorcycles = [honda\<lparr>ID := 1, CreatedUtc := 10\<rparr>]\<rparr>"
  have auth [simp]:
    "IsAuthenticated (AuthService (sampleInteractor now a b)) = a"
    "IsAuthorized (AuthService (sampleInteractor now a b)) AdminAuthorizationRole = b"
    "MotorcycleRepository (sampleInteractor now a b) = sampleRepository now" for now a b
    by (simp_all add: sampleInteractor_def)
  have c1: "?H (sampleInteractor 10 False True) ?new hondaRequest
     = ((-1, Some (New ''insert operation failed due to not being authenticated, so please contact your system administrator'')), ?new)"
    using Handle_gates_in_order [of "sampleInteractor 10 False True" "-1" Pair
            sampleNewMotorcycle ?new hondaRequest]
    by simp
  have c2: "?H (sampleInteractor 10 True False) ?new hondaRequest
     = ((-1, Some (New ''insert operation failed due to not having the required user authorization roles, so please contact your system administrator'')), ?new)"
    using Handle_gates_in_order [of "sampleInteractor 10 True False" "-1" Pair
            sampleNewMotorcycle ?new hondaRequest]
    by simp
  have f3: "fst (repoFindByVin (sampleRepository 20) ?one (reqVin hondaRequest)) \<noteq> None"
    by (simp add: sampleRepository_def hondaRequest_def honda_def)
  have c3: "?H (sampleInteractor 20 True True) ?one hondaRequest
     = ((-1, Some (New ''insert operation failed due to a motorcycle with the same VIN already existing in the repository'')), ?one)"
    using Handle_gates_in_order [of "sampleInteractor 20 True True" "-1" Pair
            sampleNewMotorcycle ?one hondaRequest] f3
    by simp
  have f0: "fst (repoFindByVin (sampleRepository 10) ?new vin) = None" for vin
    by (simp add: sampleRepository_def NewMotorcycleRepository_def)
  have n4: "sampleNewMotorcycle (reqMake (hondaRequest\<lparr>reqMake := []\<rparr>))
              (reqModel (hondaRequest\<lparr>reqMake := []\<rparr>)) (reqYear (hondaRequest\<lparr>reqMake := []\<rparr>))
              (reqVin (hondaRequest\<lparr>reqMake := []\<rparr>))
            = Inl (ValidationErrors [''make''])"
    by (simp add: sampleNewMotorcycle_def requireMake_def)
  have c4: "?H (sampleInteractor 10 True True) ?new (hondaRequest\<lparr>reqMake := []\<rparr>)
     = ((-1, Some (ValidationErrors [''make''])), ?new)"
    using Handle_gates_in_order [of "sampleInteractor 10 True True" "-1" Pair
            sampleNewMotorcycle ?new "hondaRequest\<lparr>reqMake := []\<rparr>"] f0 n4
    by simp
  have n5: "sampleNewMotorcycle (reqMake hondaRequest) (reqModel hondaRequest)
              (reqYear hondaRequest) (reqVin hondaRequest) = Inr honda"
    by (simp add: sampleNewMotorcycle_def requireMake_def hondaRequest_def honda_def)
  have i5: "repoInsert (sampleRepository 10) ?new honda
            = (Inr (honda\<lparr>ID := 1, CreatedUtc := 10\<rparr>), ?one)"
    by code_simp
  have s5: "repoSave (sampleRepository 10) ?one = (None, ?one)"
    by (simp add: sampleRepository_def Save_def)
  have c5: "?H (sampleInteractor 10 True True) ?new hondaRequest = ((1, None), ?one)"
    using Handle_gates_in_order [of "sampleInteractor 10 True True" "-1" Pair
            sampleNewMotorcycle ?new hondaRequest] f0 n5 i5 s5
    by simp
  from c1 c2 c3 c4 c5 show ?thesis by blast
qed

text \<open>
  C2, as stated, fails where the counter wraps: a repository created when the counter
  stands at \<open>MaxInt - 1\<close> gives its first motorcycle the ID \<open>MaxInt\<close>, and the next
  successful \<^verbatim>\<open>Insert\<close> assigns \<open>MinInt\<close>, which is below the ID handed out before it.
\<close>

theorem Insert_after_wrap_counterexample:
  "Insert requireMake 20
     (run requireMake (NewMotorcycleRepository (MaxInt - 1)) [OpInsert (Own honda) 10])
     (Own harley)
   = Returns (Inr (harley\<lparr>ID := MinInt, CreatedUtc := 20\<rparr>),
              harley\<lparr>ID := MinInt, CreatedUtc := 20\<rparr>,
              \<lparr>nextID = MinInt, Motorcycles =
                 [honda\<lparr>ID := MaxInt, CreatedUtc := 10\<rparr>, harley\<lparr>ID := MinInt, CreatedUtc := 20\<rparr>]\<rparr>)
   \<and> issued requireMake (NewMotorcycleRepository (MaxInt - 1)) [OpInsert (Own honda) 10] = [MaxInt]
   \<and> ID (harley\<lparr>ID := MinInt, CreatedUtc := 20\<rparr>) < MaxInt"
proof -
  have a: "Insert requireMake 20
     (run requireMake (NewMotorcycleRepository (MaxInt - 1)) [OpInsert (Own honda) 10])
     (Own harley)
   = Returns (Inr (harley\<lparr>ID := MinInt, CreatedUtc := 20\<rparr>),
              harley\<lparr>ID := MinInt, CreatedUtc := 20\<rparr>,
              \<lparr>nextID = MinInt, Motorcycles =
                 [honda\<lparr>ID := MaxInt, CreatedUtc := 10\<rparr>, harley\<lparr>ID := MinInt, CreatedUtc := 20\<rparr>]\<rparr>)"
    by code_simp
  have b: "issued requireMake (NewMotorcycleRepository (MaxInt - 1)) [OpInsert (Own honda) 10]
           = [MaxInt]"
    by code_simp
  have c: "ID (harley\<lparr>ID := MinInt, CreatedUtc := 20\<rparr>) < MaxInt"
    by (simp add: MinInt_def MaxInt_def)
  from a b c show ?thesis by blast
qed

text \<open>
  C2, amended: in every state reached from a new repository without the counter having
  wrapped, and with the counter not at the largest \<^verbatim>\<open>int\<close>, a successful \<^verbatim>\<open>Insert\<close> gives the
  entity an ID that no record of the collection has and that is strictly greater than
  every ID handed out before (those handed out since the repository was created, and the
  counter's value \<open>n\<close> at that moment, which bounds the earlier ones), sets \<^verbatim>\<open>CreatedUtc\<close> to
  the current time, and appends exactly that entity to the collection.
\<close>

theorem Insert_assigns_fresh_increasing_ID:
  assumes reach: "repo = run validate (NewMotorcycleRepository n) ops"
    and nowrap: "\<not> wraps validate (NewMotorcycleRepository n) ops"
    and top: "nextID repo \<noteq> MaxInt"
    and ins: "Insert validate now repo motorcycle = Returns (Inr r, entity, repo')"
  shows "ID r \<notin> ID ` set (Motorcycles repo)
       \<and> (\<forall>k \<in> set (issued validate (NewMotorcycleRepository n) ops). k < ID r)
       \<and> n < ID r
       \<and> CreatedUtc r = now
       \<and> entity = r
       \<and> Motorcycles repo' = Motorcycles repo @ [r]"
proof -
  have asc: "ascending repo" and n: "n \<le> nextID repo"
    unfolding reach using nowrap by (rule reach_ascending)+
  have v: "validPointer repo motorcycle"
    using ins by (cases "validPointer repo motorcycle") (simp_all add: invalid_Panics)
  define m1 where "m1 = (load repo motorcycle)\<lparr>ID := inc (nextID repo), CreatedUtc := now\<rparr>"
  note I = Insert_cases [OF v m1_def, of validate]
  have miss: "fst (findByID repo (ID (load repo motorcycle))) = kPrimaryKeyID_DoesNotExist"
    using I ins by (cases "fst (findByID repo (ID (load repo motorcycle))) = kPrimaryKeyID_DoesNotExist") auto
  have ok: "validate m1 = None"
    using I ins miss by (cases "validate m1") auto
  have srt: "sorted_wrt (<) (map ID (Motorcycles repo))" using asc by (simp add: ascending_def)
  have w: "written motorcycle m1 (Motorcycles repo) = Motorcycles repo"
    using srt v miss by (rule miss_not_Element)
  from I ins miss ok w
  have r: "r = m1" and e: "entity = m1" and repo': "Motorcycles repo' = Motorcycles repo @ [m1]"
    by auto
  have idr: "ID r = nextID repo + 1" using r top by (simp add: m1_def inc_less)
  have "\<forall>x \<in> set (Motorcycles repo). ID x \<le> nextID repo"
    using asc by (auto simp: ascending_def list_all_iff)
  then have fresh: "ID r \<notin> ID ` set (Motorcycles repo)" using idr by auto
  have old: "\<forall>k \<in> set (issued validate (NewMotorcycleRepository n) ops). k < ID r"
  proof
    fix k assume "k \<in> set (issued validate (NewMotorcycleRepository n) ops)"
    from issued_bound [OF ascending_New nowrap this] reach idr show "k < ID r" by simp
  qed
  have "n < ID r" using n idr by simp
  with fresh old r e repo' show ?thesis by (simp add: m1_def)
qed

theorem Insert_assigns_fresh_increasing_ID_witness:
  "\<not> wraps requireMake (NewMotorcycleRepository 0) [OpInsert (Own honda) 10, OpInsert (Own harley) 20]
   \<and> nextID (run requireMake (NewMotorcycleRepository 0)
               [OpInsert (Own honda) 10, OpInsert (Own harley) 20]) \<noteq> MaxInt
   \<and> Insert requireMake 50
     (run requireMake (NewMotorcycleRepository 0) [OpInsert (Own honda) 10, OpInsert (Own harley) 20])
     (Own harley)
   = Returns (Inr (harley\<lparr>ID := 3, CreatedUtc := 50\<rparr>), harley\<lparr>ID := 3, CreatedUtc := 50\<rparr>,
      \<lparr>nextID = 3, Motorcycles = [honda\<lparr>ID := 1, CreatedUtc := 10\<rparr>,
         harley\<lparr>ID := 2, CreatedUtc := 20\<rparr>, harley\<lparr>ID := 3, CreatedUtc := 50\<rparr>]\<rparr>)
   \<and> issued requireMake (NewMotorcycleRepository 0) [OpInsert (Own honda) 10, OpInsert (Own harley) 20]
       = [1, 2]
   \<and> ID (harley\<lparr>ID := 3, CreatedUtc := 50\<rparr>)
       \<notin> ID ` set (Motorcycles
            (run requireMake (NewMotorcycleRepository 0)
               [OpInsert (Own honda) 10, OpInsert (Own harley) 20]))"
proof -
  let ?ops = "[OpInsert (Own honda) 10, OpInsert (Own harley) 20]"
  let ?repo = "run requireMake (NewMotorcycleRepository 0) ?ops"
  have nw: "\<not> wraps requireMake (NewMotorcycleRepository 0) ?ops"
    by code_simp
  have top: "nextID ?repo \<noteq> MaxInt"
    by code_simp
  have ins: "Insert requireMake 50 ?repo (Own harley)
     = Returns (Inr (harley\<lparr>ID := 3, CreatedUtc := 50\<rparr>), harley\<lparr>ID := 3, CreatedUtc := 50\<rparr>,
      \<lparr>nextID = 3, Motorcycles = [honda\<lparr>ID := 1, CreatedUtc := 10\<rparr>,
         harley\<lparr>ID := 2, CreatedUtc := 20\<rparr>, harley\<lparr>ID := 3, CreatedUtc := 50\<rparr>]\<rparr>)"
    by code_simp
  have iss: "issued requireMake (NewMotorcycleRepository 0) ?ops = [1, 2]"
    by code_simp
  from Insert_assigns_fresh_increasing_ID [OF refl nw top ins] nw top ins iss
  show ?thesis by blast
qed

text \<open>
  C3: there is a state reached through the public operations with a motorcycle in the
  collection that a lookup misses: after inserting the Honda and then the Harley Davidson
  of the tests, \<^verbatim>\<open>Find\<close> on the stored Honda fails, because its binary search takes the
  collection to be ordered by make, model and year, and \<^verbatim>\<open>Insert\<close> appends in ID order.
  (\<^verbatim>\<open>FindByID\<close> finds it.) The validator is any that accepts both motorcycles.
\<close>

theorem Find_misses_motorcycle_in_collection:
  assumes "validate (honda\<lparr>ID := 1, CreatedUtc := 10\<rparr>) = None"
    and "validate (harley\<lparr>ID := 2, CreatedUtc := 20\<rparr>) = None"
  shows "\<exists>ops m. m \<in> set (Motorcycles (run validate (NewMotorcycleRepository 0) ops))
           \<and> FindByID (run validate (NewMotorcycleRepository 0) ops) (ID m) = Inr m
           \<and> Find (run validate (NewMotorcycleRepository 0) ops) m
               = Inl (New ''motorcycle was not found, so it cannot be updated'')"
proof -
  let ?ops = "[OpInsert (Own honda) 10, OpInsert (Own harley) 20]"
  let ?m = "honda\<lparr>ID := 1, CreatedUtc := 10\<rparr>"
  have i1: "Insert validate 10 (NewMotorcycleRepository 0) (Own honda)
            = Returns (Inr ?m, ?m, \<lparr>nextID = 1, Motorcycles = [?m]\<rparr>)"
    using assms(1)
    by (simp add: Insert_def findByID_def Search_0 NewMotorcycleRepository_def getNextID_def
          inc_def MaxInt_def kPrimaryKeyID_DoesNotExist_def Let_def honda_def)
  have i2: "Insert validate 20 \<lparr>nextID = 1, Motorcycles = [?m]\<rparr> (Own harley)
            = Returns (Inr (harley\<lparr>ID := 2, CreatedUtc := 20\<rparr>),
                       harley\<lparr>ID := 2, CreatedUtc := 20\<rparr>,
               \<lparr>nextID = 2, Motorcycles = [?m, harley\<lparr>ID := 2, CreatedUtc := 20\<rparr>]\<rparr>)"
    using assms(2)
    by (simp add: Insert_def findByID_def Search_1 getNextID_def
          inc_def MaxInt_def kPrimaryKeyID_DoesNotExist_def Let_def honda_def harley_def)
  have r: "run validate (NewMotorcycleRepository 0) ?ops
           = \<lparr>nextID = 2, Motorcycles = [?m, harley\<lparr>ID := 2, CreatedUtc := 20\<rparr>]\<rparr>"
    by (simp add: i1 i2)
  have a: "?m \<in> set (Motorcycles (run validate (NewMotorcycleRepository 0) ?ops))"
    unfolding r by simp
  have b: "FindByID (run validate (NewMotorcycleRepository 0) ?ops) (ID ?m) = Inr ?m"
    unfolding r by (simp add: FindByID_def findByID_def Search_2 honda_def harley_def)
  have c: "Find (run validate (NewMotorcycleRepository 0) ?ops) ?m
           = Inl (New ''motorcycle was not found, so it cannot be updated'')"
    unfolding r by (simp add: Find_def Search_2 honda_def harley_def)
  from a b c show ?thesis by blast
qed

theorem Find_misses_motorcycle_in_collection_witness:
  "requireMake (honda\<lparr>ID := 1, CreatedUtc := 10\<rparr>) = None
   \<and> requireMake (harley\<lparr>ID := 2, CreatedUtc := 20\<rparr>) = None
   \<and> (\<exists>ops m. m \<in> set (Motorcycles (run requireMake (NewMotorcycleRepository 0) ops))
           \<and> FindByID (run requireMake (NewMotorcycleRepository 0) ops) (ID m) = Inr m
           \<and> Find (run requireMake (NewMotorcycleRepository 0) ops) m
               = Inl (New ''motorcycle was not found, so it cannot be updated''))"
proof -
  have h1: "requireMake (honda\<lparr>ID := 1, CreatedUtc := 10\<rparr>) = None"
    by (simp add: requireMake_def honda_def)
  have h2: "requireMake (harley\<lparr>ID := 2, CreatedUtc := 20\<rparr>) = None"
    by (simp add: requireMake_def harley_def)
  from Find_misses_motorcycle_in_collection [OF h1 h2] h1 h2 show ?thesis by blast
qed

text \<open>
  C4, as stated, fails where the counter wraps: on a repository created when the counter
  stands at \<open>MaxInt - 1\<close>, two inserts leave the IDs \<open>MaxInt\<close>, \<open>MinInt\<close> in the collection, in
  this order, and \<^verbatim>\<open>FindByID\<close> misses the record with ID \<open>MaxInt\<close>.
\<close>

theorem collection_after_wrap_counterexample:
  "Motorcycles (run requireMake (NewMotorcycleRepository (MaxInt - 1))
                  [OpInsert (Own honda) 10, OpInsert (Own harley) 20])
   = [honda\<lparr>ID := MaxInt, CreatedUtc := 10\<rparr>, harley\<lparr>ID := MinInt, CreatedUtc := 20\<rparr>]
   \<and> \<not> sorted_wrt (<) (map ID (Motorcycles (run requireMake (NewMotorcycleRepository (MaxInt - 1))
                  [OpInsert (Own honda) 10, OpInsert (Own harley) 20])))
   \<and> FindByID (run requireMake (NewMotorcycleRepository (MaxInt - 1))
                  [OpInsert (Own honda) 10, OpInsert (Own harley) 20]) MaxInt
     = Inl (New ''motorcycle was not found'')"
proof -
  have a: "Motorcycles (run requireMake (NewMotorcycleRepository (MaxInt - 1))
                  [OpInsert (Own honda) 10, OpInsert (Own harley) 20])
   = [honda\<lparr>ID := MaxInt, CreatedUtc := 10\<rparr>, harley\<lparr>ID := MinInt, CreatedUtc := 20\<rparr>]"
    by code_simp
  have b: "\<not> sorted_wrt (<) (map ID (Motorcycles (run requireMake (NewMotorcycleRepository (MaxInt - 1))
                  [OpInsert (Own honda) 10, OpInsert (Own harley) 20])))"
    by (simp only: a) (simp add: MinInt_def MaxInt_def)
  have c: "FindByID (run requireMake (NewMotorcycleRepository (MaxInt - 1))
                  [OpInsert (Own honda) 10, OpInsert (Own harley) 20]) MaxInt
     = Inl (New ''motorcycle was not found'')"
    by code_simp
  from a b c show ?thesis by blast
qed

text \<open>
  C4, amended: after every sequence of \<^verbatim>\<open>Insert\<close>, \<^verbatim>\<open>Update\<close> and \<^verbatim>\<open>Delete\<close> calls on a new, empty
  repository during which the counter does not wrap, the collection is in strictly
  ascending ID order; so for every record of the collection the binary search of
  \<^verbatim>\<open>findByID\<close> returns the index of that record (and \<^verbatim>\<open>FindByID\<close> the record).
\<close>

theorem collection_ascending_findByID_finds:
  assumes "repo = run validate (NewMotorcycleRepository n) ops"
    and "\<not> wraps validate (NewMotorcycleRepository n) ops"
  shows "sorted_wrt (<) (map ID (Motorcycles repo))
       \<and> (\<forall>m \<in> set (Motorcycles repo).
            \<exists>p < length (Motorcycles repo).
              findByID repo (ID m) = (int p, None) \<and> Motorcycles repo ! p = m
              \<and> FindByID repo (ID m) = Inr m)"
proof -
  have asc: "ascending repo"
    unfolding assms(1) using assms(2) by (rule reach_ascending)
  then have srt: "sorted_wrt (<) (map ID (Motorcycles repo))" by (simp add: ascending_def)
  have "\<exists>p < length (Motorcycles repo).
          findByID repo (ID m) = (int p, None) \<and> Motorcycles repo ! p = m
          \<and> FindByID repo (ID m) = Inr m" if m: "m \<in> set (Motorcycles repo)" for m
  proof -
    from m obtain p where p: "p < length (Motorcycles repo)" "Motorcycles repo ! p = m"
      by (auto simp: in_set_conv_nth)
    from findByID_found [OF srt p(1)] p(2)
    have f: "findByID repo (ID m) = (int p, None)" by simp
    then have "FindByID repo (ID m) = Inr m" using p by (simp add: FindByID_def)
    with f p show ?thesis by blast
  qed
  with srt show ?thesis by blast
qed

theorem collection_ascending_findByID_finds_witness:
  "\<not> wraps requireMake (NewMotorcycleRepository 0)
       [OpInsert (Own honda) 10, OpInsert (Own harley) 20, OpUpdate (Element 1) 30,
        OpDelete (Own (honda\<lparr>ID := 1\<rparr>)), OpInsert (Own honda) 40]
   \<and> run requireMake (NewMotorcycleRepository 0)
       [OpInsert (Own honda) 10, OpInsert (Own harley) 20, OpUpdate (Element 1) 30,
        OpDelete (Own (honda\<lparr>ID := 1\<rparr>)), OpInsert (Own honda) 40]
     = \<lparr>nextID = 3, Motorcycles =
          [harley\<lparr>ID := 2, CreatedUtc := 20, ModifiedUtc := 30\<rparr>,
           honda\<lparr>ID := 3, CreatedUtc := 40\<rparr>]\<rparr>
   \<and> sorted_wrt (<) (map ID (Motorcycles (run requireMake (NewMotorcycleRepository 0)
       [OpInsert (Own honda) 10, OpInsert (Own harley) 20, OpUpdate (Element 1) 30,
        OpDelete (Own (honda\<lparr>ID := 1\<rparr>)), OpInsert (Own honda) 40])))
   \<and> FindByID (run requireMake (NewMotorcycleRepository 0)
       [OpInsert (Own honda) 10, OpInsert (Own harley) 20, OpUpdate (Element 1) 30,
        OpDelete (Own (honda\<lparr>ID := 1\<rparr>)), OpInsert (Own honda) 40]) 3
     = Inr (honda\<lparr>ID := 3, CreatedUtc := 40\<rparr>)"
proof -
  let ?ops = "[OpInsert (Own honda) 10, OpInsert (Own harley) 20, OpUpdate (Element 1) 30,
               OpDelete (Own (honda\<lparr>ID := 1\<rparr>)), OpInsert (Own honda) 40]"
  let ?repo = "run requireMake (NewMotorcycleRepository 0) ?ops"
  have nw: "\<not> wraps requireMake (NewMotorcycleRepository 0) ?ops"
    by code_simp
  have r: "?repo = \<lparr>nextID = 3, Motorcycles =
          [harley\<lparr>ID := 2, CreatedUtc := 20, ModifiedUtc := 30\<rparr>,
           honda\<lparr>ID := 3, CreatedUtc := 40\<rparr>]\<rparr>"
    by code_simp
  have m: "honda\<lparr>ID := 3, CreatedUtc := 40\<rparr> \<in> set (Motorcycles ?repo)"
    by (simp only: r) simp
  have i: "ID (honda\<lparr>ID := 3, CreatedUtc := 40\<rparr>) = 3" by simp
  from collection_ascending_findByID_finds [OF refl nw]
  have s: "sorted_wrt (<) (map ID (Motorcycles ?repo))"
    and f: "\<forall>m \<in> set (Motorcycles ?repo). FindByID ?repo (ID m) = Inr m"
    by blast+
  from f m i have "FindByID ?repo 3 = Inr (honda\<lparr>ID := 3, CreatedUtc := 40\<rparr>)"
    by fastforce
  with nw r s show ?thesis by blast
qed

text \<open>
  C5: the code does not do what the claim says. In the repository \<open>unordered\<close> a record has
  ID 2, yet \<^verbatim>\<open>Insert\<close> of an entity with ID 2 passes the duplicate check (the binary search
  probes index 1, finds ID 1 there, moves right and reports -1), returns no error and
  appends the entity.
\<close>

theorem Insert_present_ID_unordered:
  "ID (harley\<lparr>ID := 2\<rparr>) \<in> ID ` set (Motorcycles unordered)
   \<and> Insert requireMake 50 unordered (Own (harley\<lparr>ID := 2\<rparr>))
     = Returns (Inr (harley\<lparr>ID := 3, CreatedUtc := 50\<rparr>), harley\<lparr>ID := 3, CreatedUtc := 50\<rparr>,
        \<lparr>nextID = 3, Motorcycles =
           [harley\<lparr>ID := 2, CreatedUtc := 20\<rparr>, honda\<lparr>ID := 1, CreatedUtc := 10\<rparr>,
            harley\<lparr>ID := 3, CreatedUtc := 50\<rparr>]\<rparr>)"
proof -
  have "ID (harley\<lparr>ID := 2\<rparr>) \<in> ID ` set (Motorcycles unordered)"
    by (simp add: unordered_def)
  moreover have "Insert requireMake 50 unordered (Own (harley\<lparr>ID := 2\<rparr>))
     = Returns (Inr (harley\<lparr>ID := 3, CreatedUtc := 50\<rparr>), harley\<lparr>ID := 3, CreatedUtc := 50\<rparr>,
        \<lparr>nextID = 3, Motorcycles =
           [harley\<lparr>ID := 2, CreatedUtc := 20\<rparr>, honda\<lparr>ID := 1, CreatedUtc := 10\<rparr>,
            harley\<lparr>ID := 3, CreatedUtc := 50\<rparr>]\<rparr>)"
    by code_simp
  ultimately show ?thesis by blast
qed

text \<open>
  C6, as stated, fails: \<^verbatim>\<open>Update\<close> validates the entity before it replaces the record. With
  an entity that has the ID of a stored record and a blank make, \<^verbatim>\<open>Update\<close> returns the
  validation error and the record is not replaced.
\<close>

theorem Update_invalid_entity_counterexample:
  "ID (honda\<lparr>ID := 1, Make := []\<rparr>)
     \<in> ID ` set (Motorcycles (run requireMake (NewMotorcycleRepository 0) [OpInsert (Own honda) 10]))
   \<and> Update requireMake 30 (run requireMake (NewMotorcycleRepository 0) [OpInsert (Own honda) 10])
        (Own (honda\<lparr>ID := 1, Make := []\<rparr>))
     = Returns (Inl (ValidationErrors [''make'']), honda\<lparr>ID := 1, Make := [], ModifiedUtc := 30\<rparr>,
        \<lparr>nextID = 1, Motorcycles = [honda\<lparr>ID := 1, CreatedUtc := 10\<rparr>]\<rparr>)"
proof -
  have r: "run requireMake (NewMotorcycleRepository 0) [OpInsert (Own honda) 10]
           = \<lparr>nextID = 1, Motorcycles = [honda\<lparr>ID := 1, CreatedUtc := 10\<rparr>]\<rparr>"
    by code_simp
  have "ID (honda\<lparr>ID := 1, Make := []\<rparr>)
     \<in> ID ` set (Motorcycles (run requireMake (NewMotorcycleRepository 0) [OpInsert (Own honda) 10]))"
    by (simp only: r) simp
  moreover have "Update requireMake 30 (run requireMake (NewMotorcycleRepository 0) [OpInsert (Own honda) 10])
        (Own (honda\<lparr>ID := 1, Make := []\<rparr>))
     = Returns (Inl (ValidationErrors [''make'']), honda\<lparr>ID := 1, Make := [], ModifiedUtc := 30\<rparr>,
        \<lparr>nextID = 1, Motorcycles = [honda\<lparr>ID := 1, CreatedUtc := 10\<rparr>]\<rparr>)"
    by code_simp
  ultimately show ?thesis by blast
qed

text \<open>
  C6, amended: \<^verbatim>\<open>Update\<close>, called with a pointer to an entity (the caller's own, or a record
  of the collection), returns an error and leaves the collection unchanged when the
  entity's ID is not in the collection. When its lookup finds the ID at index \<open>i\<close>, as it
  does for every ID present in a collection in strictly ascending ID order, \<^verbatim>\<open>Update\<close> sets
  the entity's \<^verbatim>\<open>ModifiedUtc\<close> to the current time through the pointer and validates the
  entity: if it passes, the record at index \<open>i\<close> is replaced with the entity's fields and
  every other record is left as it was; if it fails, \<^verbatim>\<open>Update\<close> returns the validation error
  and replaces nothing. The write of \<^verbatim>\<open>ModifiedUtc\<close> is to the collection itself when the
  pointer is to one of its records (\<open>written\<close>); in ascending ID order that record is the
  one at index \<open>i\<close>.
\<close>

theorem Update_sets_time_validates_replaces:
  assumes "validPointer repo motorcycle"
    and "m = load repo motorcycle"
    and "m1 = m\<lparr>ModifiedUtc := now\<rparr>"
  shows "(ID m \<notin> ID ` set (Motorcycles repo) \<longrightarrow>
            Update validate now repo motorcycle
            = Returns (Inl (New ''cannot update a motorcycle that does not exist''), m, repo))
       \<and> (\<forall>i. findByID repo (ID m) = (int i, None) \<longrightarrow>
            (validate m1 = None \<longrightarrow>
               Update validate now repo motorcycle
               = Returns (Inr m1, m1,
                   repo\<lparr>Motorcycles := (written motorcycle m1 (Motorcycles repo))[i := m1]\<rparr>))
          \<and> (\<forall>err. validate m1 = Some err \<longrightarrow>
               Update validate now repo motorcycle
               = Returns (Inl err, m1,
                   repo\<lparr>Motorcycles := written motorcycle m1 (Motorcycles repo)\<rparr>)))
       \<and> (sorted_wrt (<) (map ID (Motorcycles repo)) \<longrightarrow>
            (\<forall>i < length (Motorcycles repo). ID (Motorcycles repo ! i) = ID m \<longrightarrow>
               findByID repo (ID m) = (int i, None)
               \<and> (written motorcycle m1 (Motorcycles repo))[i := m1] = (Motorcycles repo)[i := m1]
               \<and> (written motorcycle m1 (Motorcycles repo) = Motorcycles repo
                  \<or> written motorcycle m1 (Motorcycles repo) = (Motorcycles repo)[i := m1])))"
proof -
  have m1': "m1 = (load repo motorcycle)\<lparr>ModifiedUtc := now\<rparr>" using assms(2,3) by simp
  note U = Update_cases [OF assms(1) m1', of validate]
  have absent: "Update validate now repo motorcycle
            = Returns (Inl (New ''cannot update a motorcycle that does not exist''), m, repo)"
    if "ID m \<notin> ID ` set (Motorcycles repo)"
    using findByID_absent [OF that] U assms(2)
    by (simp add: kPrimaryKeyID_DoesNotExist_def)
  have found: "(validate m1 = None \<longrightarrow>
               Update validate now repo motorcycle
               = Returns (Inr m1, m1,
                   repo\<lparr>Motorcycles := (written motorcycle m1 (Motorcycles repo))[i := m1]\<rparr>))
          \<and> (\<forall>err. validate m1 = Some err \<longrightarrow>
               Update validate now repo motorcycle
               = Returns (Inl err, m1,
                   repo\<lparr>Motorcycles := written motorcycle m1 (Motorcycles repo)\<rparr>))"
    if "findByID repo (ID m) = (int i, None)" for i
    using that U assms(2) by (simp add: kPrimaryKeyID_DoesNotExist_def)
  have ordered: "findByID repo (ID m) = (int i, None)
               \<and> (written motorcycle m1 (Motorcycles repo))[i := m1] = (Motorcycles repo)[i := m1]
               \<and> (written motorcycle m1 (Motorcycles repo) = Motorcycles repo
                  \<or> written motorcycle m1 (Motorcycles repo) = (Motorcycles repo)[i := m1])"
    if srt: "sorted_wrt (<) (map ID (Motorcycles repo))"
      and i: "i < length (Motorcycles repo)" "ID (Motorcycles repo ! i) = ID m" for i
  proof -
    from findByID_found [OF srt i(1)] i(2)
    have f: "findByID repo (ID m) = (int i, None)" by simp
    show ?thesis
    proof (cases motorcycle)
      case (Own x)
      with f show ?thesis by simp
    next
      case (Element j)
      with assms(1) have j: "j < length (Motorcycles repo)" by simp
      from findByID_found [OF srt j] Element assms(2)
      have "findByID repo (ID m) = (int j, None)" by simp
      with f have "j = i" by simp
      with Element f show ?thesis by simp
    qed
  qed
  from absent found ordered show ?thesis by blast
qed

theorem Update_sets_time_validates_replaces_witness:
  "Update requireMake 30
     (run requireMake (NewMotorcycleRepository 0) [OpInsert (Own honda) 10, OpInsert (Own harley) 20])
     (Own (honda\<lparr>ID := 1, Make := ''Harley Davidson''\<rparr>))
   = Returns (Inr (honda\<lparr>ID := 1, Make := ''Harley Davidson'', ModifiedUtc := 30\<rparr>),
      honda\<lparr>ID := 1, Make := ''Harley Davidson'', ModifiedUtc := 30\<rparr>,
      \<lparr>nextID = 2, Motorcycles =
         [honda\<lparr>ID := 1, Make := ''Harley Davidson'', ModifiedUtc := 30\<rparr>,
          harley\<lparr>ID := 2, CreatedUtc := 20\<rparr>]\<rparr>)
   \<and> Update requireMake 30
     (run requireMake (NewMotorcycleRepository 0) [OpInsert (Own honda) 10, OpInsert (Own harley) 20])
     (Element 1)
   = Returns (Inr (harley\<lparr>ID := 2, CreatedUtc := 20, ModifiedUtc := 30\<rparr>),
      harley\<lparr>ID := 2, CreatedUtc := 20, ModifiedUtc := 30\<rparr>,
      \<lparr>nextID = 2, Motorcycles =
         [honda\<lparr>ID := 1, CreatedUtc := 10\<rparr>,
          harley\<lparr>ID := 2, CreatedUtc := 20, ModifiedUtc := 30\<rparr>]\<rparr>)
   \<and> Update requireMake 30
     (run requireMake (NewMotorcycleRepository 0) [OpInsert (Own honda) 10, OpInsert (Own harley) 20])
     (Own (honda\<lparr>ID := 123\<rparr>))
   = Returns (Inl (New ''cannot update a motorcycle that does not exist''), honda\<lparr>ID := 123\<rparr>,
      run requireMake (NewMotorcycleRepository 0) [OpInsert (Own honda) 10, OpInsert (Own harley) 20])
   \<and> Update requireMake 30
     \<lparr>nextID = 1, Motorcycles = [honda\<lparr>ID := 1, Make := [], CreatedUtc := 10\<rparr>]\<rparr> (Element 0)
   = Returns (Inl (ValidationErrors [''make'']),
      honda\<lparr>ID := 1, Make := [], CreatedUtc := 10, ModifiedUtc := 30\<rparr>,
      \<lparr>nextID = 1, Motorcycles = [honda\<lparr>ID := 1, Make := [], CreatedUtc := 10, ModifiedUtc := 30\<rparr>]\<rparr>)"
proof -
  let ?repo = "run requireMake (NewMotorcycleRepository 0) [OpInsert (Own honda) 10, OpInsert (Own harley) 20]"
  let ?a = "honda\<lparr>ID := 1, Make := ''Harley Davidson''\<rparr>"
  let ?b = "harley\<lparr>ID := 2, CreatedUtc := 20\<rparr>"
  have r: "?repo = \<lparr>nextID = 2, Motorcycles = [honda\<lparr>ID := 1, CreatedUtc := 10\<rparr>, ?b]\<rparr>"
    by code_simp
  have va: "validPointer ?repo (Own ?a)" by simp
  have vb: "validPointer ?repo (Element 1)" by (simp only: r) simp
  have vc: "validPointer ?repo (Own (honda\<lparr>ID := 123\<rparr>))" by simp
  have lb: "?b = load ?repo (Element 1)" by (simp only: r) simp
  have fa: "findByID ?repo (ID ?a) = (int 0, None)" by code_simp
  have fb: "findByID ?repo (ID ?b) = (int 1, None)" by code_simp
  have oka: "requireMake (?a\<lparr>ModifiedUtc := 30\<rparr>) = None" by (simp add: requireMake_def)
  have okb: "requireMake (?b\<lparr>ModifiedUtc := 30\<rparr>) = None" by (simp add: requireMake_def harley_def)
  have absent: "ID (honda\<lparr>ID := 123\<rparr>) \<notin> ID ` set (Motorcycles ?repo)"
    by (simp only: r) (simp add: honda_def harley_def)
  from Update_sets_time_validates_replaces [OF va refl refl, of requireMake 30] fa oka
  have "Update requireMake 30 ?repo (Own ?a)
        = Returns (Inr (?a\<lparr>ModifiedUtc := 30\<rparr>), ?a\<lparr>ModifiedUtc := 30\<rparr>,
            ?repo\<lparr>Motorcycles := (written (Own ?a) (?a\<lparr>ModifiedUtc := 30\<rparr>) (Motorcycles ?repo))
                                    [0 := ?a\<lparr>ModifiedUtc := 30\<rparr>]\<rparr>)"
    by (simp del: run.simps)
  then have one: "Update requireMake 30 ?repo (Own ?a)
        = Returns (Inr (?a\<lparr>ModifiedUtc := 30\<rparr>), ?a\<lparr>ModifiedUtc := 30\<rparr>,
            \<lparr>nextID = 2, Motorcycles = [?a\<lparr>ModifiedUtc := 30\<rparr>, ?b]\<rparr>)"
    by (simp only: r) simp
  from Update_sets_time_validates_replaces [OF vb lb refl, of requireMake 30] fb okb
  have "Update requireMake 30 ?repo (Element 1)
        = Returns (Inr (?b\<lparr>ModifiedUtc := 30\<rparr>), ?b\<lparr>ModifiedUtc := 30\<rparr>,
            ?repo\<lparr>Motorcycles := (written (Element 1) (?b\<lparr>ModifiedUtc := 30\<rparr>) (Motorcycles ?repo))
                                    [1 := ?b\<lparr>ModifiedUtc := 30\<rparr>]\<rparr>)"
    by (simp del: run.simps)
  then have two: "Update requireMake 30 ?repo (Element 1)
        = Returns (Inr (?b\<lparr>ModifiedUtc := 30\<rparr>), ?b\<lparr>ModifiedUtc := 30\<rparr>,
            \<lparr>nextID = 2, Motorcycles = [honda\<lparr>ID := 1, CreatedUtc := 10\<rparr>, ?b\<lparr>ModifiedUtc := 30\<rparr>]\<rparr>)"
    by (simp only: r) simp
  from Update_sets_time_validates_replaces [OF vc refl refl, of requireMake 30] absent
  have three: "Update requireMake 30 ?repo (Own (honda\<lparr>ID := 123\<rparr>))
        = Returns (Inl (New ''cannot update a motorcycle that does not exist''),
                   honda\<lparr>ID := 123\<rparr>, ?repo)"
    by (simp del: run.simps)
  let ?blank = "\<lparr>nextID = 1, Motorcycles = [honda\<lparr>ID := 1, Make := [], CreatedUtc := 10\<rparr>]\<rparr>"
  let ?c = "honda\<lparr>ID := 1, Make := [], CreatedUtc := 10\<rparr>"
  have vd: "validPointer ?blank (Element 0)" by simp
  have ld: "?c = load ?blank (Element 0)" by simp
  have fd: "findByID ?blank (ID ?c) = (int 0, None)" by code_simp
  have bad: "requireMake (?c\<lparr>ModifiedUtc := 30\<rparr>) = Some (ValidationErrors [''make''])"
    by (simp add: requireMake_def)
  from Update_sets_time_validates_replaces [OF vd ld refl, of requireMake 30] fd bad
  have four: "Update requireMake 30 ?blank (Element 0)
        = Returns (Inl (ValidationErrors [''make'']), ?c\<lparr>ModifiedUtc := 30\<rparr>,
            \<lparr>nextID = 1, Motorcycles = [?c\<lparr>ModifiedUtc := 30\<rparr>]\<rparr>)"
    by simp
  from one two three four show ?thesis by simp
qed

text \<open>
  C7: the code does not do what the claim says. In the repository \<open>unordered\<close> a record has
  ID 2, yet \<^verbatim>\<open>Delete\<close> of an entity with ID 2 returns the error for a motorcycle that does
  not exist and removes nothing: the binary search of \<^verbatim>\<open>findByID\<close> misses the record, as it
  does in \<^verbatim>\<open>Insert\<close>.
\<close>

theorem Delete_present_ID_unordered:
  "ID (harley\<lparr>ID := 2\<rparr>) \<in> ID ` set (Motorcycles unordered)
   \<and> Delete unordered (Own (harley\<lparr>ID := 2\<rparr>))
     = Returns (Some (New ''cannot delete a motorcycle that does not exist''), unordered)"
proof -
  have "ID (harley\<lparr>ID := 2\<rparr>) \<in> ID ` set (Motorcycles unordered)"
    by (simp add: unordered_def)
  moreover have "Delete unordered (Own (harley\<lparr>ID := 2\<rparr>))
     = Returns (Some (New ''cannot delete a motorcycle that does not exist''), unordered)"
    by code_simp
  ultimately show ?thesis by blast
qed

text \<open>
  C8: \<^verbatim>\<open>Save\<close> returns nil in every state and leaves the collection and the ID counter as
  they are.
\<close>

theorem Save_returns_nil_changes_nothing:
  "fst (Save repo) = None
   \<and> Motorcycles (snd (Save repo)) = Motorcycles repo
   \<and> nextID (snd (Save repo)) = nextID repo"
  by (simp add: Save_def)

text \<open>
  C9, as stated, fails where the entity passed is itself a record of the collection: the
  writes of the ID and of \<^verbatim>\<open>CreatedUtc\<close> go through the pointer, before the entity is
  validated. In the repository \<open>unorderedBlank\<close> the lookup misses the ID of the first
  record; \<^verbatim>\<open>Insert\<close> of a pointer to that record returns the validation error and has
  overwritten the record's ID and \<^verbatim>\<open>CreatedUtc\<close> in the collection. It also fails where
  the counter stands at the largest \<^verbatim>\<open>int\<close>: after the rejected \<^verbatim>\<open>Insert\<close> the counter is not
  one higher, it is the smallest \<^verbatim>\<open>int\<close>.
\<close>

theorem Insert_validation_failure_aliased_counterexample:
  "Insert requireMake 50 unorderedBlank (Element 0)
   = Returns (Inl (ValidationErrors [''make'']),
       harley\<lparr>ID := 3, Make := [], CreatedUtc := 50\<rparr>,
       \<lparr>nextID = 3, Motorcycles =
          [harley\<lparr>ID := 3, Make := [], CreatedUtc := 50\<rparr>, honda\<lparr>ID := 1, CreatedUtc := 10\<rparr>]\<rparr>)
   \<and> Motorcycles unorderedBlank
     = [harley\<lparr>ID := 2, Make := [], CreatedUtc := 20\<rparr>, honda\<lparr>ID := 1, CreatedUtc := 10\<rparr>]
   \<and> Insert requireMake 50 (NewMotorcycleRepository MaxInt) (Own (honda\<lparr>Make := []\<rparr>))
     = Returns (Inl (ValidationErrors [''make'']),
         honda\<lparr>Make := [], ID := MinInt, CreatedUtc := 50\<rparr>,
         \<lparr>nextID = MinInt, Motorcycles = []\<rparr>)
   \<and> MinInt < MaxInt"
proof -
  have "Insert requireMake 50 unorderedBlank (Element 0)
   = Returns (Inl (ValidationErrors [''make'']),
       harley\<lparr>ID := 3, Make := [], CreatedUtc := 50\<rparr>,
       \<lparr>nextID = 3, Motorcycles =
          [harley\<lparr>ID := 3, Make := [], CreatedUtc := 50\<rparr>, honda\<lparr>ID := 1, CreatedUtc := 10\<rparr>]\<rparr>)"
    by code_simp
  moreover have "Motorcycles unorderedBlank
     = [harley\<lparr>ID := 2, Make := [], CreatedUtc := 20\<rparr>, honda\<lparr>ID := 1, CreatedUtc := 10\<rparr>]"
    by (simp add: unorderedBlank_def)
  moreover have "Insert requireMake 50 (NewMotorcycleRepository MaxInt) (Own (honda\<lparr>Make := []\<rparr>))
     = Returns (Inl (ValidationErrors [''make'']),
         honda\<lparr>Make := [], ID := MinInt, CreatedUtc := 50\<rparr>,
         \<lparr>nextID = MinInt, Motorcycles = []\<rparr>)"
    by code_simp
  moreover have "MinInt < MaxInt" by (simp add: MinInt_def MaxInt_def)
  ultimately show ?thesis by blast
qed

text \<open>
  C9, amended: when \<^verbatim>\<open>Insert\<close> of an entity that is not itself a record of the collection
  gets past the duplicate check and the entity then fails validation, \<^verbatim>\<open>Insert\<close> returns the
  validation error and the collection is unchanged, but the counter has been advanced (by
  one, the largest \<^verbatim>\<open>int\<close> wrapping to the smallest) and the caller's entity carries the new
  ID and \<^verbatim>\<open>CreatedUtc\<close>. The ID is lost: the next \<^verbatim>\<open>getNextID\<close> returns the one after it and,
  where no record had it before, no record of the collection has it after any further
  calls during which the counter does not wrap.
\<close>

theorem Insert_validation_failure_side_effects:
  assumes "fst (findByID repo (ID m)) = kPrimaryKeyID_DoesNotExist"
    and "validate (m\<lparr>ID := inc (nextID repo), CreatedUtc := now\<rparr>) = Some err"
    and "Insert validate now repo (Own m) = Returns (res, entity, repo')"
  shows "res = Inl err
       \<and> Motorcycles repo' = Motorcycles repo
       \<and> nextID repo' = inc (nextID repo)
       \<and> ID entity = inc (nextID repo) \<and> CreatedUtc entity = now
       \<and> fst (getNextID repo') = inc (inc (nextID repo))
       \<and> (inc (nextID repo) \<notin> ID ` set (Motorcycles repo) \<and> \<not> wraps validate repo' ops \<longrightarrow>
            inc (nextID repo) \<notin> ID ` set (Motorcycles (run validate repo' ops)))"
proof -
  have v: "validPointer repo (Own m)" by simp
  from Insert_cases [OF v refl, of validate now] assms
  have eq: "res = Inl err" "entity = m\<lparr>ID := inc (nextID repo), CreatedUtc := now\<rparr>"
    "repo' = repo\<lparr>nextID := inc (nextID repo)\<rparr>"
    by simp_all
  have "inc (nextID repo) \<notin> ID ` set (Motorcycles (run validate repo' ops))"
    if "inc (nextID repo) \<notin> ID ` set (Motorcycles repo)" "\<not> wraps validate repo' ops"
    by (rule unused_run) (use that eq in simp_all)
  with eq show ?thesis by (simp add: getNextID_def)
qed

theorem Insert_validation_failure_side_effects_witness:
  "fst (findByID (NewMotorcycleRepository 0) (ID (honda\<lparr>Make := []\<rparr>)))
     = kPrimaryKeyID_DoesNotExist
   \<and> requireMake (honda\<lparr>Make := [], ID := inc (nextID (NewMotorcycleRepository 0)), CreatedUtc := 10\<rparr>)
     = Some (ValidationErrors [''make''])
   \<and> Insert requireMake 10 (NewMotorcycleRepository 0) (Own (honda\<lparr>Make := []\<rparr>))
     = Returns (Inl (ValidationErrors [''make'']), honda\<lparr>Make := [], ID := 1, CreatedUtc := 10\<rparr>,
        \<lparr>nextID = 1, Motorcycles = []\<rparr>)
   \<and> \<not> wraps requireMake \<lparr>nextID = 1, Motorcycles = []\<rparr> [OpInsert (Own honda) 20]
   \<and> Motorcycles (run requireMake \<lparr>nextID = 1, Motorcycles = []\<rparr> [OpInsert (Own honda) 20])
     = [honda\<lparr>ID := 2, CreatedUtc := 20\<rparr>]
   \<and> 1 \<notin> ID ` set (Motorcycles (run requireMake \<lparr>nextID = 1, Motorcycles = []\<rparr>
                                    [OpInsert (Own honda) 20]))"
proof -
  have h1: "fst (findByID (NewMotorcycleRepository 0) (ID (honda\<lparr>Make := []\<rparr>)))
     = kPrimaryKeyID_DoesNotExist"
    by code_simp
  have h2: "requireMake (honda\<lparr>Make := [], ID := inc (nextID (NewMotorcycleRepository 0)), CreatedUtc := 10\<rparr>)
     = Some (ValidationErrors [''make''])"
    by (simp add: requireMake_def)
  have h3: "Insert requireMake 10 (NewMotorcycleRepository 0) (Own (honda\<lparr>Make := []\<rparr>))
     = Returns (Inl (ValidationErrors [''make'']), honda\<lparr>Make := [], ID := 1, CreatedUtc := 10\<rparr>,
        \<lparr>nextID = 1, Motorcycles = []\<rparr>)"
    by code_simp
  have h4: "\<not> wraps requireMake \<lparr>nextID = 1, Motorcycles = []\<rparr> [OpInsert (Own honda) 20]"
    by code_simp
  have h5: "Motorcycles (run requireMake \<lparr>nextID = 1, Motorcycles = []\<rparr> [OpInsert (Own honda) 20])
     = [honda\<lparr>ID := 2, CreatedUtc := 20\<rparr>]"
    by code_simp
  have i: "inc (nextID (NewMotorcycleRepository 0)) = 1"
    by (simp add: inc_def NewMotorcycleRepository_def MaxInt_def)
  have e: "inc (nextID (NewMotorcycleRepository 0)) \<notin> ID ` set (Motorcycles (NewMotorcycleRepository 0))"
    by (simp add: NewMotorcycleRepository_def)
  from Insert_validation_failure_side_effects [OF h1 h2 h3, of "[OpInsert (Own honda) 20]"] e h4
  have "inc (nextID (NewMotorcycleRepository 0))
          \<notin> ID ` set (Motorcycles (run requireMake \<lparr>nextID = 1, Motorcycles = []\<rparr>
                                    [OpInsert (Own honda) 20]))"
    by blast
  then have h6: "1 \<notin> ID ` set (Motorcycles (run requireMake \<lparr>nextID = 1, Motorcycles = []\<rparr>
                                    [OpInsert (Own honda) 20]))"
    unfolding i .
  from h1 h2 h3 h4 h5 h6 show ?thesis by blast
qed

text \<open>
  C10: called with a nil error and field values that fail validation (an ID of 0 or below
  the minimum, or an empty message), \<^verbatim>\<open>NewInsertMotorcycleViewModel\<close> evaluates
  \<^verbatim>\<open>viewModel.Error.Error()\<close> on the nil error and panics; it does not return an error.
\<close>

theorem NewInsertMotorcycleViewModel_nil_error_panics:
  assumes "id' = 0 \<or> id' < MinEntityID \<or> message = []"
  shows "NewInsertMotorcycleViewModel MinEntityID id' message None = Panics"
  using assms by (auto simp: NewInsertMotorcycleViewModel_def Validate_def Let_def)

theorem NewInsertMotorcycleViewModel_nil_error_panics_witness:
  "((0::int) = 0 \<or> (0::int) < 1 \<or> ''Successfully inserted a new motorcycle.'' = [])
   \<and> NewInsertMotorcycleViewModel 1 0 ''Successfully inserted a new motorcycle.'' None = Panics
   \<and> NewInsertMotorcycleViewModel 1 7 [] None = Panics"
  using NewInsertMotorcycleViewModel_nil_error_panics [of 0 1 "''Successfully inserted a new motorcycle.''"]
    NewInsertMotorcycleViewModel_nil_error_panics [of 7 1 "[]"]
  by simp

end
